theory Spec2Isabelle
  imports Complex_Main
begin

section \<open>Arithmetic of the solver\<close>

text \<open>
  The solver of \<^verbatim>\<open>src/src/lamberts_solver.cpp\<close> computes on C++ \<^verbatim>\<open>double\<close>
  values.  A \<^verbatim>\<open>double\<close> is modelled as a real number or one of the three
  special values of IEEE 754: the two infinities and NaN.  Arithmetic on
  finite values is exact (rounding, overflow and the sign of zero are not
  modelled); what is modelled is where the special values come from and how
  they propagate: a division by zero gives an infinity or NaN, the square
  root of a negative number gives NaN, every ordered comparison with NaN is
  false.
\<close>

datatype dbl = Fin real | PInf | NInf | NaN

instantiation dbl :: "{zero, one, plus, minus, uminus, times, inverse, abs, ord}"
begin

definition zero_dbl :: dbl where "zero_dbl = Fin 0"

definition one_dbl :: dbl where "one_dbl = Fin 1"

fun uminus_dbl :: "dbl \<Rightarrow> dbl" where
  "uminus_dbl (Fin a) = Fin (- a)"
| "uminus_dbl PInf = NInf"
| "uminus_dbl NInf = PInf"
| "uminus_dbl NaN = NaN"

fun plus_dbl :: "dbl \<Rightarrow> dbl \<Rightarrow> dbl" where
  "plus_dbl NaN _ = NaN"
| "plus_dbl _ NaN = NaN"
| "plus_dbl (Fin a) (Fin b) = Fin (a + b)"
| "plus_dbl PInf NInf = NaN"
| "plus_dbl NInf PInf = NaN"
| "plus_dbl PInf _ = PInf"
| "plus_dbl _ PInf = PInf"
| "plus_dbl NInf _ = NInf"
| "plus_dbl _ NInf = NInf"

definition minus_dbl :: "dbl \<Rightarrow> dbl \<Rightarrow> dbl" where
  "minus_dbl a b = a + (- b)"

fun times_dbl :: "dbl \<Rightarrow> dbl \<Rightarrow> dbl" where
  "times_dbl NaN _ = NaN"
| "times_dbl _ NaN = NaN"
| "times_dbl (Fin a) (Fin b) = Fin (a * b)"
| "times_dbl (Fin a) PInf = (if a = 0 then NaN else if 0 < a then PInf else NInf)"
| "times_dbl (Fin a) NInf = (if a = 0 then NaN else if 0 < a then NInf else PInf)"
| "times_dbl PInf (Fin b) = (if b = 0 then NaN else if 0 < b then PInf else NInf)"
| "times_dbl NInf (Fin b) = (if b = 0 then NaN else if 0 < b then NInf else PInf)"
| "times_dbl PInf PInf = PInf"
| "times_dbl PInf NInf = NInf"
| "times_dbl NInf PInf = NInf"
| "times_dbl NInf NInf = PInf"

text \<open>Division: a zero divisor is taken as \<^verbatim>\<open>+0\<close>.\<close>

fun divide_dbl :: "dbl \<Rightarrow> dbl \<Rightarrow> dbl" where
  "divide_dbl NaN _ = NaN"
| "divide_dbl _ NaN = NaN"
| "divide_dbl (Fin a) (Fin b) =
     (if b \<noteq> 0 then Fin (a / b) else if a = 0 then NaN else if 0 < a then PInf else NInf)"
| "divide_dbl (Fin a) PInf = Fin 0"
| "divide_dbl (Fin a) NInf = Fin 0"
| "divide_dbl PInf (Fin b) = (if 0 \<le> b then PInf else NInf)"
| "divide_dbl NInf (Fin b) = (if 0 \<le> b then NInf else PInf)"
| "divide_dbl PInf PInf = NaN"
| "divide_dbl PInf NInf = NaN"
| "divide_dbl NInf PInf = NaN"
| "divide_dbl NInf NInf = NaN"

fun inverse_dbl :: "dbl \<Rightarrow> dbl" where
  "inverse_dbl (Fin a) = (if a \<noteq> 0 then Fin (1 / a) else PInf)"
| "inverse_dbl PInf = Fin 0"
| "inverse_dbl NInf = Fin 0"
| "inverse_dbl NaN = NaN"

fun abs_dbl :: "dbl \<Rightarrow> dbl" where
  "abs_dbl (Fin a) = Fin \<bar>a\<bar>"
| "abs_dbl PInf = PInf"
| "abs_dbl NInf = PInf"
| "abs_dbl NaN = NaN"

fun less_dbl :: "dbl \<Rightarrow> dbl \<Rightarrow> bool" where
  "less_dbl NaN _ = False"
| "less_dbl _ NaN = False"
| "less_dbl (Fin a) (Fin b) = (a < b)"
| "less_dbl _ NInf = False"
| "less_dbl PInf _ = False"
| "less_dbl NInf _ = True"
| "less_dbl _ PInf = True"

fun less_eq_dbl :: "dbl \<Rightarrow> dbl \<Rightarrow> bool" where
  "less_eq_dbl NaN _ = False"
| "less_eq_dbl _ NaN = False"
| "less_eq_dbl (Fin a) (Fin b) = (a \<le> b)"
| "less_eq_dbl NInf _ = True"
| "less_eq_dbl _ PInf = True"
| "less_eq_dbl _ NInf = False"
| "less_eq_dbl PInf _ = False"

instance ..

end

text \<open>The operator \<^verbatim>\<open>==\<close> on doubles: NaN is equal to nothing.\<close>

definition deq :: "dbl \<Rightarrow> dbl \<Rightarrow> bool" where
  "deq a b = (a \<noteq> NaN \<and> a = b)"

text \<open>\<^verbatim>\<open>std::max(a, b)\<close> is \<^verbatim>\<open>(a < b) ? b : a\<close> and \<^verbatim>\<open>std::min(a, b)\<close> is
  \<^verbatim>\<open>(b < a) ? b : a\<close>: with a NaN in either place the first argument comes back.\<close>

definition dmax :: "dbl \<Rightarrow> dbl \<Rightarrow> dbl" where
  "dmax a b = (if a < b then b else a)"

definition dmin :: "dbl \<Rightarrow> dbl \<Rightarrow> dbl" where
  "dmin a b = (if b < a then b else a)"

subsection \<open>Functions of \<^verbatim>\<open><cmath>\<close>\<close>

fun dsqrt :: "dbl \<Rightarrow> dbl" where
  "dsqrt (Fin a) = (if a < 0 then NaN else Fin (sqrt a))"
| "dsqrt PInf = PInf"
| "dsqrt NInf = NaN"
| "dsqrt NaN = NaN"

fun dcos :: "dbl \<Rightarrow> dbl" where
  "dcos (Fin a) = Fin (cos a)"
| "dcos _ = NaN"

fun dsin :: "dbl \<Rightarrow> dbl" where
  "dsin (Fin a) = Fin (sin a)"
| "dsin _ = NaN"

fun dcosh :: "dbl \<Rightarrow> dbl" where
  "dcosh (Fin a) = Fin (cosh a)"
| "dcosh PInf = PInf"
| "dcosh NInf = PInf"
| "dcosh NaN = NaN"

fun dsinh :: "dbl \<Rightarrow> dbl" where
  "dsinh (Fin a) = Fin (sinh a)"
| "dsinh PInf = PInf"
| "dsinh NInf = NInf"
| "dsinh NaN = NaN"

text \<open>\<^verbatim>\<open>std::pow(x, 1.5)\<close>.\<close>

fun dpow15 :: "dbl \<Rightarrow> dbl" where
  "dpow15 (Fin a) = (if a < 0 then NaN else Fin (a powr (3 / 2)))"
| "dpow15 PInf = PInf"
| "dpow15 NInf = PInf"
| "dpow15 NaN = NaN"

text \<open>\<^verbatim>\<open>std::atan2(y, x)\<close>: the angle of the point \<open>(x, y)\<close>, in \<open>(-\<pi>, \<pi>]\<close>.\<close>

definition atan2r :: "real \<Rightarrow> real \<Rightarrow> real" where
  "atan2r y x =
     (if 0 < x then arctan (y / x)
      else if x < 0 then (if 0 \<le> y then arctan (y / x) + pi else arctan (y / x) - pi)
      else if 0 < y then pi / 2
      else if y < 0 then - (pi / 2)
      else 0)"

fun datan2 :: "dbl \<Rightarrow> dbl \<Rightarrow> dbl" where
  "datan2 NaN _ = NaN"
| "datan2 _ NaN = NaN"
| "datan2 (Fin y) (Fin x) = Fin (atan2r y x)"
| "datan2 (Fin y) PInf = Fin 0"
| "datan2 (Fin y) NInf = (if 0 \<le> y then Fin pi else Fin (- pi))"
| "datan2 PInf (Fin x) = Fin (pi / 2)"
| "datan2 NInf (Fin x) = Fin (- (pi / 2))"
| "datan2 PInf PInf = Fin (pi / 4)"
| "datan2 NInf PInf = Fin (- (pi / 4))"
| "datan2 PInf NInf = Fin (3 * pi / 4)"
| "datan2 NInf NInf = Fin (- (3 * pi / 4))"

section \<open>The solver\<close>

text \<open>\<^verbatim>\<open>const double PI = 3.14159265358979323846;\<close>\<close>

definition PI_r :: real where
  "PI_r = 314159265358979323846 / 100000000000000000000"

definition PI :: dbl where
  "PI = Fin PI_r"

text \<open>\<^verbatim>\<open>struct Vector3 { double x; double y; double z; }\<close>; the fields carry the
  prefix \<open>v\<close> here.\<close>

record 'd Vector3 =
  vx :: 'd
  vy :: 'd
  vz :: 'd

definition norm_v :: "dbl Vector3 \<Rightarrow> dbl" where
  "norm_v v = dsqrt (vx v * vx v + vy v * vy v + vz v * vz v)"

definition cross :: "dbl Vector3 \<Rightarrow> dbl Vector3 \<Rightarrow> dbl Vector3" where
  "cross a b = \<lparr> vx = vy a * vz b - vz a * vy b,
                 vy = vz a * vx b - vx a * vz b,
                 vz = vx a * vy b - vy a * vx b \<rparr>"

definition dot :: "dbl Vector3 \<Rightarrow> dbl Vector3 \<Rightarrow> dbl" where
  "dot a b = vx a * vx b + vy a * vy b + vz a * vz b"

subsection \<open>Stumpff functions\<close>

definition stumpff_C :: "dbl \<Rightarrow> dbl" where
  "stumpff_C z =
     (if \<bar>z\<bar> < Fin (1 / 1000000) then
        Fin 1 / Fin 2 - z / Fin 24 + z * z / Fin 720 - z * z * z / Fin 40320
      else if Fin 0 < z then (Fin 1 - dcos (dsqrt z)) / z
      else (dcosh (dsqrt (- z)) - Fin 1) / (- z))"

definition stumpff_S :: "dbl \<Rightarrow> dbl" where
  "stumpff_S z =
     (if \<bar>z\<bar> < Fin (1 / 1000000) then
        Fin 1 / Fin 6 - z / Fin 120 + z * z / Fin 5040 - z * z * z / Fin 362880
      else if Fin 0 < z then (dsqrt z - dsin (dsqrt z)) / dpow15 z
      else (dsinh (dsqrt (- z)) - dsqrt (- z)) / dpow15 (- z))"

subsection \<open>Errors and results\<close>

text \<open>
  The four \<^verbatim>\<open>throw\<close> statements of \<^verbatim>\<open>solve\<close>, in the order of the source:
  \<^verbatim>\<open>std::invalid_argument("Position vectors cannot be zero.")\<close>,
  \<^verbatim>\<open>std::runtime_error("Cannot compute A.")\<close>,
  \<^verbatim>\<open>std::runtime_error("z exceeded reasonable bounds.")\<close> and the
  \<^verbatim>\<open>std::runtime_error\<close> whose message reports that the solver did not converge
  and prints \<^verbatim>\<open>F\<close>, \<^verbatim>\<open>z\<close>, \<^verbatim>\<open>y\<close>, \<^verbatim>\<open>r1\<close>, \<^verbatim>\<open>r2\<close>, \<^verbatim>\<open>tof\<close> and \<^verbatim>\<open>is_prograde\<close>.
  \<^verbatim>\<open>F\<close> and \<^verbatim>\<open>y\<close> are declared without a value: \<open>None\<close> is a variable that was
  never assigned.
\<close>

datatype error =
    InvalidInput
  | DegenerateGeometry
  | NumericalDivergence
  | NonConvergence "dbl option" dbl "dbl option" "dbl Vector3" "dbl Vector3" dbl bool

definition tolerance :: dbl where
  "tolerance = Fin (1 / 100000000)"

definition max_iterations :: nat where
  "max_iterations = 1000"

subsection \<open>Geometry (lines 40 to 71)\<close>

definition cos_dtheta :: "dbl Vector3 \<Rightarrow> dbl Vector3 \<Rightarrow> dbl" where
  "cos_dtheta r1 r2 =
     dmax (- Fin 1) (dmin (Fin 1) (dot r1 r2 / (norm_v r1 * norm_v r2)))"

definition sin_dtheta :: "dbl Vector3 \<Rightarrow> dbl Vector3 \<Rightarrow> bool \<Rightarrow> dbl" where
  "sin_dtheta r1 r2 is_prograde =
     (let s = norm_v (cross r1 r2) / (norm_v r1 * norm_v r2);
          cross_prod = cross r1 r2
      in if is_prograde then (if vz cross_prod < Fin 0 then - s else s)
         else (if Fin 0 \<le> vz cross_prod then - s else s))"

definition dtheta :: "dbl Vector3 \<Rightarrow> dbl Vector3 \<Rightarrow> bool \<Rightarrow> dbl" where
  "dtheta r1 r2 is_prograde =
     (let t = datan2 (sin_dtheta r1 r2 is_prograde) (cos_dtheta r1 r2)
      in if t < Fin 0 then t + Fin 2 * PI else t)"

definition A_of :: "dbl Vector3 \<Rightarrow> dbl Vector3 \<Rightarrow> bool \<Rightarrow> dbl" where
  "A_of r1 r2 is_prograde =
     sin_dtheta r1 r2 is_prograde
       * dsqrt (norm_v r1 * norm_v r2 / (Fin 1 - cos_dtheta r1 r2))"

definition z_low :: dbl where
  "z_low = - Fin 4 * PI * PI"

definition z_up :: dbl where
  "z_up = Fin 4 * PI * PI"

definition z_init :: "dbl \<Rightarrow> dbl" where
  "z_init dth = (if PI < dth then - Fin 4 * PI * PI else Fin 4 * PI * PI)"

subsection \<open>The iteration (lines 73 to 142)\<close>

text \<open>The expression assigned to \<^verbatim>\<open>y\<close> at lines 83 and 93.\<close>

definition y_at :: "dbl \<Rightarrow> dbl \<Rightarrow> dbl \<Rightarrow> dbl \<Rightarrow> dbl" where
  "y_at r1_norm r2_norm A z =
     r1_norm + r2_norm + A * (z * stumpff_S z - Fin 1) / dsqrt (stumpff_C z)"

text \<open>
  The inner loop \<^verbatim>\<open>while (y < 0)\<close> of lines 89 to 99, on its own bracket
  \<^verbatim>\<open>z_low\<close>, \<^verbatim>\<open>z_high\<close> (these shadow the outer bounds).  The source puts no
  bound on it, so it is a partial function: \<open>None\<close> is a loop that never
  exits.  It returns the final \<^verbatim>\<open>z\<close> and \<^verbatim>\<open>y\<close>.
\<close>

definition mid :: "dbl \<Rightarrow> dbl \<Rightarrow> dbl" where
  "mid lo hi = (lo + hi) / Fin 2"

partial_function (option) bracket ::
  "dbl \<Rightarrow> dbl \<Rightarrow> dbl \<Rightarrow> dbl \<Rightarrow> dbl \<Rightarrow> dbl \<Rightarrow> dbl \<Rightarrow> (dbl \<times> dbl) option" where
  "bracket r1_norm r2_norm A lo hi z y =
     (if y < Fin 0 then
        bracket r1_norm r2_norm A
          (if mid lo hi < Fin 0 then mid lo hi else lo)
          (if mid lo hi < Fin 0 then hi else mid lo hi)
          (mid lo hi)
          (y_at r1_norm r2_norm A (mid lo hi))
      else Some (z, y))"

text \<open>The variables that live across the passes of the outer loop.\<close>

record loop_state =
  cur_z :: dbl
  cur_y :: "dbl option"
  cur_F :: "dbl option"
  iteration :: nat

text \<open>How one pass through the body of the outer loop ends: at the
  \<^verbatim>\<open>continue\<close> or at the end of the body, at the \<^verbatim>\<open>break\<close>, or at the \<^verbatim>\<open>throw\<close>.
  After the \<^verbatim>\<open>break\<close> the source reads \<^verbatim>\<open>y\<close> and none of the other loop variables.\<close>

datatype pass_end = Continue loop_state | Break dbl | Throw

definition pass ::
  "dbl \<Rightarrow> dbl \<Rightarrow> dbl \<Rightarrow> dbl \<Rightarrow> dbl \<Rightarrow> loop_state \<Rightarrow> pass_end option" where
  "pass r1_norm r2_norm A mu tof st =
     (let it = iteration st + 1;
          z = cur_z st;
          C = stumpff_C z;
          S = stumpff_S z;
          y = y_at r1_norm r2_norm A z
      in if y < Fin 0 then
           (case bracket r1_norm r2_norm A z (if z < Fin 0 then Fin 0 else z * Fin 2) z y of
              None \<Rightarrow> None
            | Some (z', y') \<Rightarrow>
                Some (Continue (st\<lparr> cur_z := z', cur_y := Some y', iteration := it \<rparr>)))
         else
           (let sqrt_y = dsqrt y;
                F = y * S + A * sqrt_y - dsqrt mu * tof
            in if \<bar>F\<bar> < tolerance then
                 Some (Break y)
               else
                 (let dFdz = (y * C + A * S * sqrt_y) / (Fin 2 * C);
                      delta_z = Fin (1 / 2) * F / dFdz;
                      delta_z = (if Fin 10 < \<bar>delta_z\<bar>
                                 then (if Fin 0 < delta_z then Fin 10 else - Fin 10)
                                 else delta_z);
                      z = z - delta_z
                  in if Fin 1000000 < \<bar>z\<bar> then Some Throw
                     else Some (Continue \<lparr> cur_z = dmax z_low (dmin z z_up), cur_y = Some y,
                                            cur_F = Some F, iteration = it \<rparr>))))"

text \<open>How the outer loop \<^verbatim>\<open>while (iteration < max_iterations)\<close> ends: by the
  \<^verbatim>\<open>break\<close> (\<^verbatim>\<open>converged = true\<close>), with its condition false, or by the \<^verbatim>\<open>throw\<close>.\<close>

datatype loop_end = Converged dbl | Exhausted loop_state | Diverged

function loop ::
  "dbl \<Rightarrow> dbl \<Rightarrow> dbl \<Rightarrow> dbl \<Rightarrow> dbl \<Rightarrow> loop_state \<Rightarrow> loop_end option" where
  "loop r1_norm r2_norm A mu tof st =
     (if iteration st < max_iterations then
        (case pass r1_norm r2_norm A mu tof st of
           None \<Rightarrow> None
         | Some (Continue st') \<Rightarrow> loop r1_norm r2_norm A mu tof st'
         | Some (Break y) \<Rightarrow> Some (Converged y)
         | Some Throw \<Rightarrow> Some Diverged)
      else Some (Exhausted st))"
  by pat_completeness auto
termination
  by (relation "measure (\<lambda>(r1_norm, r2_norm, A, mu, tof, st). max_iterations - iteration st)")
     (auto simp: pass_def Let_def max_iterations_def split: if_splits option.splits prod.splits)

declare loop.simps [simp del]

subsection \<open>Velocities (lines 154 to 172)\<close>

definition velocities ::
  "dbl \<Rightarrow> dbl Vector3 \<Rightarrow> dbl Vector3 \<Rightarrow> dbl \<Rightarrow> dbl \<Rightarrow> dbl Vector3 \<times> dbl Vector3" where
  "velocities mu r1 r2 A y =
     (let f = Fin 1 - y / norm_v r1;
          g = A * dsqrt (y / mu);
          g_dot = Fin 1 - y / norm_v r2
      in (\<lparr> vx = (vx r2 - f * vx r1) / g,
            vy = (vy r2 - f * vy r1) / g,
            vz = (vz r2 - f * vz r1) / g \<rparr>,
          \<lparr> vx = (g_dot * vx r2 - vx r1) / g,
            vy = (g_dot * vy r2 - vy r1) / g,
            vz = (g_dot * vz r2 - vz r1) / g \<rparr>))"

subsection \<open>\<^verbatim>\<open>LambertSolver::solve\<close>\<close>

text \<open>
  The solver object holds \<^verbatim>\<open>mu\<close> and nothing else; \<^verbatim>\<open>solve\<close> reads it and
  writes no member.  The result is \<open>None\<close> when the call does not return,
  \<open>Some (Inl e)\<close> when it throws and \<open>Some (Inr (v1, v2))\<close> when it returns.
  The lines written to \<^verbatim>\<open>std::cout\<close> and \<^verbatim>\<open>std::cerr\<close> are left out.
\<close>

definition initial_state :: "dbl \<Rightarrow> loop_state" where
  "initial_state dth = \<lparr> cur_z = z_init dth, cur_y = None, cur_F = None, iteration = 0 \<rparr>"

definition solve ::
  "dbl \<Rightarrow> dbl Vector3 \<Rightarrow> dbl Vector3 \<Rightarrow> dbl \<Rightarrow> bool \<Rightarrow> (error + dbl Vector3 \<times> dbl Vector3) option" where
  "solve mu r1 r2 tof is_prograde =
     (let r1_norm = norm_v r1;
          r2_norm = norm_v r2
      in if deq r1_norm (Fin 0) \<or> deq r2_norm (Fin 0) then Some (Inl InvalidInput)
         else
           (let A = A_of r1 r2 is_prograde
            in if deq A (Fin 0) then Some (Inl DegenerateGeometry)
               else
                 (case loop r1_norm r2_norm A mu tof
                         (initial_state (dtheta r1 r2 is_prograde)) of
                    None \<Rightarrow> None
                  | Some Diverged \<Rightarrow> Some (Inl NumericalDivergence)
                  | Some (Exhausted st) \<Rightarrow>
                      Some (Inl (NonConvergence (cur_F st) (cur_z st) (cur_y st)
                                   r1 r2 tof is_prograde))
                  | Some (Converged y) \<Rightarrow> Some (Inr (velocities mu r1 r2 A y)))))"

subsection \<open>Notions used in the statements and proofs\<close>

text \<open>The residual \<^verbatim>\<open>F\<close> of line 104 as a function of \<^verbatim>\<open>z\<close>.\<close>

definition residual :: "dbl \<Rightarrow> dbl \<Rightarrow> dbl \<Rightarrow> dbl \<Rightarrow> dbl \<Rightarrow> dbl \<Rightarrow> dbl" where
  "residual r1_norm r2_norm A mu tof z =
     (let y = y_at r1_norm r2_norm A z
      in y * stumpff_S z + A * dsqrt y - dsqrt mu * tof)"

text \<open>The loop variables after \<open>k\<close> passes of the outer loop that all reached
  the end of the body or the \<^verbatim>\<open>continue\<close>.\<close>

fun after_passes ::
  "dbl \<Rightarrow> dbl \<Rightarrow> dbl \<Rightarrow> dbl \<Rightarrow> dbl \<Rightarrow> nat \<Rightarrow> loop_state \<Rightarrow> loop_state option" where
  "after_passes r1_norm r2_norm A mu tof 0 st = Some st"
| "after_passes r1_norm r2_norm A mu tof (Suc k) st =
     (case pass r1_norm r2_norm A mu tof st of
        Some (Continue st') \<Rightarrow> after_passes r1_norm r2_norm A mu tof k st'
      | _ \<Rightarrow> None)"

text \<open>What the inner loop guarantees when it exits: the final \<^verbatim>\<open>z\<close> lies in the
  bracket it started from and \<^verbatim>\<open>y\<close> is the value at that \<^verbatim>\<open>z\<close>, not negative.\<close>

definition bracket_post :: "dbl \<Rightarrow> dbl \<Rightarrow> dbl \<Rightarrow> real \<Rightarrow> real \<Rightarrow> dbl \<times> dbl \<Rightarrow> bool" where
  "bracket_post r1_norm r2_norm A l h res \<longleftrightarrow>
     (\<exists>x'. fst res = Fin x' \<and> l \<le> x' \<and> x' \<le> h \<and>
           snd res = y_at r1_norm r2_norm A (Fin x') \<and> \<not> snd res < Fin 0)"

text \<open>The invariant of \<^verbatim>\<open>z\<close> at the head of the outer loop: within the outer
  bounds, or at most twice as far and with \<^verbatim>\<open>y\<close> not negative there (the state
  that a pass through the inner loop leaves).\<close>

definition z_inv :: "dbl \<Rightarrow> dbl \<Rightarrow> dbl \<Rightarrow> dbl \<Rightarrow> bool" where
  "z_inv r1_norm r2_norm A z \<longleftrightarrow>
     (\<exists>x. z = Fin x \<and>
        (\<bar>x\<bar> \<le> 4 * PI_r * PI_r \<or>
         \<bar>x\<bar> \<le> 8 * PI_r * PI_r \<and> \<not> y_at r1_norm r2_norm A (Fin x) < Fin 0))"

text \<open>
  A call that converges in its first pass: \<open>r1 = (1, 0, 0)\<close>, \<open>r2 = (0, -1, 0)\<close>,
  \<open>mu = 1\<close>, prograde (a transfer of three quarters of a turn, so the iteration
  starts at \<^verbatim>\<open>z_low\<close>), and the time of flight for which the residual at
  \<^verbatim>\<open>z_low\<close> is zero.
\<close>

definition r1_example :: "dbl Vector3" where
  "r1_example = \<lparr> vx = Fin 1, vy = Fin 0, vz = Fin 0 \<rparr>"

definition r2_example :: "dbl Vector3" where
  "r2_example = \<lparr> vx = Fin 0, vy = Fin (- 1), vz = Fin 0 \<rparr>"

definition example_tof :: dbl where
  "example_tof = residual (Fin 1) (Fin 1) (Fin (- 1)) (Fin 1) (Fin 0) z_low"

definition y_example :: real where
  "y_example = 2 + sqrt (cosh (sqrt (4 * PI_r * PI_r)) + 1)"

text \<open>
  A call in which passes through the inner loop use up half of the budget:
  \<open>r1 = (1, 0, 0)\<close>, \<open>r2 = (0, 1, 0)\<close>, prograde, time of flight NaN.  Every
  pass that evaluates \<^verbatim>\<open>F\<close> gets NaN and is sent to \<^verbatim>\<open>z_low\<close> by the clamp,
  where \<^verbatim>\<open>y\<close> is negative; the inner loop then halves \<^verbatim>\<open>z\<close> four times, to
  \<^verbatim>\<open>z_repaired\<close>, where \<^verbatim>\<open>y\<close> is \<^verbatim>\<open>y_repaired\<close>.
\<close>

definition r1_quarter :: "dbl Vector3" where
  "r1_quarter = \<lparr> vx = Fin 1, vy = Fin 0, vz = Fin 0 \<rparr>"

definition r2_quarter :: "dbl Vector3" where
  "r2_quarter = \<lparr> vx = Fin 0, vy = Fin 1, vz = Fin 0 \<rparr>"

definition z_repaired :: dbl where
  "z_repaired = Fin (- (PI_r * PI_r / 4))"

definition y_repaired :: dbl where
  "y_repaired = Fin (2 - sqrt (cosh (PI_r / 2) + 1))"

text \<open>The number of passes, among the first \<open>k\<close>, that take the branch
  \<^verbatim>\<open>y >= 0\<close> and evaluate \<^verbatim>\<open>F\<close> (a Newton iteration); the others go through
  the inner loop and reach the \<^verbatim>\<open>continue\<close>.\<close>

fun newton_passes ::
  "dbl \<Rightarrow> dbl \<Rightarrow> dbl \<Rightarrow> dbl \<Rightarrow> dbl \<Rightarrow> nat \<Rightarrow> loop_state \<Rightarrow> nat" where
  "newton_passes r1_norm r2_norm A mu tof 0 st = 0"
| "newton_passes r1_norm r2_norm A mu tof (Suc k) st =
     (if y_at r1_norm r2_norm A (cur_z st) < Fin 0 then 0 else 1) +
     (case pass r1_norm r2_norm A mu tof st of
        Some (Continue st') \<Rightarrow> newton_passes r1_norm r2_norm A mu tof k st'
      | _ \<Rightarrow> 0)"

section \<open>The solver over an arbitrary arithmetic\<close>

text \<open>
  The same source once more, this time with the arithmetic as a parameter:
  the type \<open>'d\<close> of the values of a \<^verbatim>\<open>double\<close> and every operation of the
  source on it.  \<open>lit\<close> is the conversion to \<^verbatim>\<open>double\<close> of a decimal literal or
  of an integer constant of the source (\<^verbatim>\<open>1e-8\<close> is \<open>lit (1 / 100000000)\<close>, the
  \<^verbatim>\<open>-4\<close> of \<^verbatim>\<open>-4 * PI * PI\<close> is \<open>lit (- 4)\<close>); \<^verbatim>\<open>a > b\<close> is \<open>flt b a\<close> and
  \<^verbatim>\<open>a >= b\<close> is \<open>fle b a\<close>.  What is proved of these definitions for every
  arithmetic holds of the program whatever the rounding, the overflow and
  the functions of \<^verbatim>\<open><cmath>\<close> do.
\<close>

record 'd arith =
  lit :: "real \<Rightarrow> 'd"
  fneg :: "'d \<Rightarrow> 'd"
  fadd :: "'d \<Rightarrow> 'd \<Rightarrow> 'd"
  fsub :: "'d \<Rightarrow> 'd \<Rightarrow> 'd"
  fmul :: "'d \<Rightarrow> 'd \<Rightarrow> 'd"
  fdiv :: "'d \<Rightarrow> 'd \<Rightarrow> 'd"
  fabs :: "'d \<Rightarrow> 'd"
  flt :: "'d \<Rightarrow> 'd \<Rightarrow> bool"
  fle :: "'d \<Rightarrow> 'd \<Rightarrow> bool"
  feq :: "'d \<Rightarrow> 'd \<Rightarrow> bool"
  fsqrt :: "'d \<Rightarrow> 'd"
  fcos :: "'d \<Rightarrow> 'd"
  fsin :: "'d \<Rightarrow> 'd"
  fcosh :: "'d \<Rightarrow> 'd"
  fsinh :: "'d \<Rightarrow> 'd"
  fpow15 :: "'d \<Rightarrow> 'd"
  fatan2 :: "'d \<Rightarrow> 'd \<Rightarrow> 'd"

definition max_fp :: "'d arith \<Rightarrow> 'd \<Rightarrow> 'd \<Rightarrow> 'd" where
  "max_fp a x y = (if flt a x y then y else x)"

definition min_fp :: "'d arith \<Rightarrow> 'd \<Rightarrow> 'd \<Rightarrow> 'd" where
  "min_fp a x y = (if flt a y x then y else x)"

definition PI_fp :: "'d arith \<Rightarrow> 'd" where
  "PI_fp a = lit a (314159265358979323846 / 100000000000000000000)"

definition norm_fp :: "'d arith \<Rightarrow> 'd Vector3 \<Rightarrow> 'd" where
  "norm_fp a v =
     fsqrt a (fadd a (fadd a (fmul a (vx v) (vx v)) (fmul a (vy v) (vy v)))
                     (fmul a (vz v) (vz v)))"

definition cross_fp :: "'d arith \<Rightarrow> 'd Vector3 \<Rightarrow> 'd Vector3 \<Rightarrow> 'd Vector3" where
  "cross_fp a u v =
     \<lparr> vx = fsub a (fmul a (vy u) (vz v)) (fmul a (vz u) (vy v)),
       vy = fsub a (fmul a (vz u) (vx v)) (fmul a (vx u) (vz v)),
       vz = fsub a (fmul a (vx u) (vy v)) (fmul a (vy u) (vx v)) \<rparr>"

definition dot_fp :: "'d arith \<Rightarrow> 'd Vector3 \<Rightarrow> 'd Vector3 \<Rightarrow> 'd" where
  "dot_fp a u v =
     fadd a (fadd a (fmul a (vx u) (vx v)) (fmul a (vy u) (vy v))) (fmul a (vz u) (vz v))"

definition stumpff_C_fp :: "'d arith \<Rightarrow> 'd \<Rightarrow> 'd" where
  "stumpff_C_fp a z =
     (if flt a (fabs a z) (lit a (1 / 1000000)) then
        fsub a
          (fadd a (fsub a (fdiv a (lit a 1) (lit a 2)) (fdiv a z (lit a 24)))
                  (fdiv a (fmul a z z) (lit a 720)))
          (fdiv a (fmul a (fmul a z z) z) (lit a 40320))
      else if flt a (lit a 0) z then
        fdiv a (fsub a (lit a 1) (fcos a (fsqrt a z))) z
      else
        fdiv a (fsub a (fcosh a (fsqrt a (fneg a z))) (lit a 1)) (fneg a z))"

definition stumpff_S_fp :: "'d arith \<Rightarrow> 'd \<Rightarrow> 'd" where
  "stumpff_S_fp a z =
     (if flt a (fabs a z) (lit a (1 / 1000000)) then
        fsub a
          (fadd a (fsub a (fdiv a (lit a 1) (lit a 6)) (fdiv a z (lit a 120)))
                  (fdiv a (fmul a z z) (lit a 5040)))
          (fdiv a (fmul a (fmul a z z) z) (lit a 362880))
      else if flt a (lit a 0) z then
        fdiv a (fsub a (fsqrt a z) (fsin a (fsqrt a z))) (fpow15 a z)
      else
        fdiv a (fsub a (fsinh a (fsqrt a (fneg a z))) (fsqrt a (fneg a z)))
               (fpow15 a (fneg a z)))"

datatype 'd failure =
    InvalidInput_fp
  | DegenerateGeometry_fp
  | NumericalDivergence_fp
  | NonConvergence_fp 'd 'd 'd "'d Vector3" "'d Vector3" 'd bool

definition cos_dtheta_fp :: "'d arith \<Rightarrow> 'd Vector3 \<Rightarrow> 'd Vector3 \<Rightarrow> 'd" where
  "cos_dtheta_fp a r1 r2 =
     max_fp a (fneg a (lit a 1))
       (min_fp a (lit a 1) (fdiv a (dot_fp a r1 r2) (fmul a (norm_fp a r1) (norm_fp a r2))))"

definition sin_dtheta_fp :: "'d arith \<Rightarrow> 'd Vector3 \<Rightarrow> 'd Vector3 \<Rightarrow> bool \<Rightarrow> 'd" where
  "sin_dtheta_fp a r1 r2 is_prograde =
     (let s = fdiv a (norm_fp a (cross_fp a r1 r2)) (fmul a (norm_fp a r1) (norm_fp a r2));
          cross_prod = cross_fp a r1 r2
      in if is_prograde then (if flt a (vz cross_prod) (lit a 0) then fneg a s else s)
         else (if fle a (lit a 0) (vz cross_prod) then fneg a s else s))"

definition dtheta_fp :: "'d arith \<Rightarrow> 'd Vector3 \<Rightarrow> 'd Vector3 \<Rightarrow> bool \<Rightarrow> 'd" where
  "dtheta_fp a r1 r2 is_prograde =
     (let t = fatan2 a (sin_dtheta_fp a r1 r2 is_prograde) (cos_dtheta_fp a r1 r2)
      in if flt a t (lit a 0) then fadd a t (fmul a (lit a 2) (PI_fp a)) else t)"

definition A_fp :: "'d arith \<Rightarrow> 'd Vector3 \<Rightarrow> 'd Vector3 \<Rightarrow> bool \<Rightarrow> 'd" where
  "A_fp a r1 r2 is_prograde =
     fmul a (sin_dtheta_fp a r1 r2 is_prograde)
       (fsqrt a (fdiv a (fmul a (norm_fp a r1) (norm_fp a r2))
                        (fsub a (lit a 1) (cos_dtheta_fp a r1 r2))))"

definition z_low_fp :: "'d arith \<Rightarrow> 'd" where
  "z_low_fp a = fmul a (fmul a (lit a (- 4)) (PI_fp a)) (PI_fp a)"

definition z_up_fp :: "'d arith \<Rightarrow> 'd" where
  "z_up_fp a = fmul a (fmul a (lit a 4) (PI_fp a)) (PI_fp a)"

definition z_init_fp :: "'d arith \<Rightarrow> 'd \<Rightarrow> 'd" where
  "z_init_fp a dth =
     (if flt a (PI_fp a) dth then fmul a (fmul a (lit a (- 4)) (PI_fp a)) (PI_fp a)
      else fmul a (fmul a (lit a 4) (PI_fp a)) (PI_fp a))"

definition y_fp :: "'d arith \<Rightarrow> 'd \<Rightarrow> 'd \<Rightarrow> 'd \<Rightarrow> 'd \<Rightarrow> 'd" where
  "y_fp a r1_norm r2_norm A z =
     fadd a (fadd a r1_norm r2_norm)
       (fdiv a (fmul a A (fsub a (fmul a z (stumpff_S_fp a z)) (lit a 1)))
               (fsqrt a (stumpff_C_fp a z)))"

definition mid_fp :: "'d arith \<Rightarrow> 'd \<Rightarrow> 'd \<Rightarrow> 'd" where
  "mid_fp a lo hi = fdiv a (fadd a lo hi) (lit a 2)"

partial_function (option) bracket_fp ::
  "'d arith \<Rightarrow> 'd \<Rightarrow> 'd \<Rightarrow> 'd \<Rightarrow> 'd \<Rightarrow> 'd \<Rightarrow> 'd \<Rightarrow> 'd \<Rightarrow> ('d \<times> 'd) option" where
  "bracket_fp a r1_norm r2_norm A lo hi z y =
     (if flt a y (lit a 0) then
        bracket_fp a r1_norm r2_norm A
          (if flt a (mid_fp a lo hi) (lit a 0) then mid_fp a lo hi else lo)
          (if flt a (mid_fp a lo hi) (lit a 0) then hi else mid_fp a lo hi)
          (mid_fp a lo hi)
          (y_fp a r1_norm r2_norm A (mid_fp a lo hi))
      else Some (z, y))"

text \<open>
  The variables of \<^verbatim>\<open>solve\<close> that live across the passes of the outer loop.
  \<^verbatim>\<open>y\<close> and \<^verbatim>\<open>F\<close> are declared without an initial value: what they hold before
  the first assignment is a parameter of the model (\<open>y0\<close> and \<open>F0\<close> below).
\<close>

record 'd locals =
  loc_z :: 'd
  loc_y :: 'd
  loc_F :: 'd
  loc_iteration :: nat

datatype 'd step = Continue_fp "'d locals" | Break_fp 'd | Throw_fp

definition pass_fp ::
  "'d arith \<Rightarrow> 'd \<Rightarrow> 'd \<Rightarrow> 'd \<Rightarrow> 'd \<Rightarrow> 'd \<Rightarrow> 'd locals \<Rightarrow> 'd step option" where
  "pass_fp a r1_norm r2_norm A mu tof st =
     (let it = loc_iteration st + 1;
          z = loc_z st;
          C = stumpff_C_fp a z;
          S = stumpff_S_fp a z;
          y = y_fp a r1_norm r2_norm A z
      in if flt a y (lit a 0) then
           (case bracket_fp a r1_norm r2_norm A z
                   (if flt a z (lit a 0) then lit a 0 else fmul a z (lit a 2)) z y of
              None \<Rightarrow> None
            | Some (z', y') \<Rightarrow>
                Some (Continue_fp (st\<lparr> loc_z := z', loc_y := y', loc_iteration := it \<rparr>)))
         else
           (let sqrt_y = fsqrt a y;
                F = fsub a (fadd a (fmul a y S) (fmul a A sqrt_y)) (fmul a (fsqrt a mu) tof)
            in if flt a (fabs a F) (lit a (1 / 100000000)) then Some (Break_fp y)
               else
                 (let dFdz = fdiv a (fadd a (fmul a y C) (fmul a (fmul a A S) sqrt_y))
                                    (fmul a (lit a 2) C);
                      delta_z = fdiv a (fmul a (lit a (1 / 2)) F) dFdz;
                      delta_z = (if flt a (lit a 10) (fabs a delta_z)
                                 then (if flt a (lit a 0) delta_z then lit a 10
                                       else fneg a (lit a 10))
                                 else delta_z);
                      z = fsub a z delta_z
                  in if flt a (lit a 1000000) (fabs a z) then Some Throw_fp
                     else Some (Continue_fp
                            \<lparr> loc_z = max_fp a (z_low_fp a) (min_fp a z (z_up_fp a)),
                              loc_y = y, loc_F = F, loc_iteration = it \<rparr>))))"

datatype 'd outcome = Converged_fp 'd | Exhausted_fp "'d locals" | Diverged_fp

function loop_fp ::
  "'d arith \<Rightarrow> 'd \<Rightarrow> 'd \<Rightarrow> 'd \<Rightarrow> 'd \<Rightarrow> 'd \<Rightarrow> 'd locals \<Rightarrow> 'd outcome option" where
  "loop_fp a r1_norm r2_norm A mu tof st =
     (if loc_iteration st < 1000 then
        (case pass_fp a r1_norm r2_norm A mu tof st of
           None \<Rightarrow> None
         | Some (Continue_fp st') \<Rightarrow> loop_fp a r1_norm r2_norm A mu tof st'
         | Some (Break_fp y) \<Rightarrow> Some (Converged_fp y)
         | Some Throw_fp \<Rightarrow> Some Diverged_fp)
      else Some (Exhausted_fp st))"
  by pat_completeness auto
termination
  by (relation "measure (\<lambda>(a, r1_norm, r2_norm, A, mu, tof, st). 1000 - loc_iteration st)")
     (auto simp: pass_fp_def Let_def split: if_splits option.splits prod.splits)

declare loop_fp.simps [simp del]

definition velocities_fp ::
  "'d arith \<Rightarrow> 'd \<Rightarrow> 'd Vector3 \<Rightarrow> 'd Vector3 \<Rightarrow> 'd \<Rightarrow> 'd \<Rightarrow> 'd Vector3 \<times> 'd Vector3" where
  "velocities_fp a mu r1 r2 A y =
     (let f = fsub a (lit a 1) (fdiv a y (norm_fp a r1));
          g = fmul a A (fsqrt a (fdiv a y mu));
          g_dot = fsub a (lit a 1) (fdiv a y (norm_fp a r2))
      in (\<lparr> vx = fdiv a (fsub a (vx r2) (fmul a f (vx r1))) g,
            vy = fdiv a (fsub a (vy r2) (fmul a f (vy r1))) g,
            vz = fdiv a (fsub a (vz r2) (fmul a f (vz r1))) g \<rparr>,
          \<lparr> vx = fdiv a (fsub a (fmul a g_dot (vx r2)) (vx r1)) g,
            vy = fdiv a (fsub a (fmul a g_dot (vy r2)) (vy r1)) g,
            vz = fdiv a (fsub a (fmul a g_dot (vz r2)) (vz r1)) g \<rparr>))"

definition locals_fp :: "'d arith \<Rightarrow> 'd \<Rightarrow> 'd \<Rightarrow> 'd \<Rightarrow> 'd locals" where
  "locals_fp a y0 F0 dth =
     \<lparr> loc_z = z_init_fp a dth, loc_y = y0, loc_F = F0, loc_iteration = 0 \<rparr>"

definition solve_fp ::
  "'d arith \<Rightarrow> 'd \<Rightarrow> 'd \<Rightarrow> 'd \<Rightarrow> 'd Vector3 \<Rightarrow> 'd Vector3 \<Rightarrow> 'd \<Rightarrow> bool \<Rightarrow>
     ('d failure + 'd Vector3 \<times> 'd Vector3) option" where
  "solve_fp a y0 F0 mu r1 r2 tof is_prograde =
     (let r1_norm = norm_fp a r1;
          r2_norm = norm_fp a r2
      in if feq a r1_norm (lit a 0) \<or> feq a r2_norm (lit a 0) then Some (Inl InvalidInput_fp)
         else
           (let A = A_fp a r1 r2 is_prograde
            in if feq a A (lit a 0) then Some (Inl DegenerateGeometry_fp)
               else
                 (case loop_fp a r1_norm r2_norm A mu tof
                         (locals_fp a y0 F0 (dtheta_fp a r1 r2 is_prograde)) of
                    None \<Rightarrow> None
                  | Some Diverged_fp \<Rightarrow> Some (Inl NumericalDivergence_fp)
                  | Some (Exhausted_fp st) \<Rightarrow>
                      Some (Inl (NonConvergence_fp (loc_F st) (loc_z st) (loc_y st)
                                   r1 r2 tof is_prograde))
                  | Some (Converged_fp y) \<Rightarrow>
                      Some (Inr (velocities_fp a mu r1 r2 A y)))))"

definition residual_fp :: "'d arith \<Rightarrow> 'd \<Rightarrow> 'd \<Rightarrow> 'd \<Rightarrow> 'd \<Rightarrow> 'd \<Rightarrow> 'd \<Rightarrow> 'd" where
  "residual_fp a r1_norm r2_norm A mu tof z =
     (let y = y_fp a r1_norm r2_norm A z
      in fsub a (fadd a (fmul a y (stumpff_S_fp a z)) (fmul a A (fsqrt a y)))
                (fmul a (fsqrt a mu) tof))"

fun after_fp ::
  "'d arith \<Rightarrow> 'd \<Rightarrow> 'd \<Rightarrow> 'd \<Rightarrow> 'd \<Rightarrow> 'd \<Rightarrow> nat \<Rightarrow> 'd locals \<Rightarrow> 'd locals option" where
  "after_fp a r1_norm r2_norm A mu tof 0 st = Some st"
| "after_fp a r1_norm r2_norm A mu tof (Suc k) st =
     (case pass_fp a r1_norm r2_norm A mu tof st of
        Some (Continue_fp st') \<Rightarrow> after_fp a r1_norm r2_norm A mu tof k st'
      | _ \<Rightarrow> None)"

subsection \<open>Two arithmetics\<close>

text \<open>The exact arithmetic of the first part.\<close>

definition exact_fp :: "dbl arith" where
  "exact_fp =
     \<lparr> lit = Fin, fneg = uminus, fadd = (+), fsub = (-), fmul = (*), fdiv = (/),
       fabs = abs, flt = (<), fle = (\<le>), feq = deq,
       fsqrt = dsqrt, fcos = dcos, fsin = dsin, fcosh = dcosh, fsinh = dsinh,
       fpow15 = dpow15, fatan2 = datan2 \<rparr>"

text \<open>
  The range of binary64: there is no value of magnitude \<open>2\<^sup>1\<^sup>0\<^sup>2\<^sup>4\<close> or more and
  none between zero and \<open>2\<^sup>-\<^sup>1\<^sup>0\<^sup>7\<^sup>4\<close>.  A result of magnitude at least \<open>2\<^sup>1\<^sup>0\<^sup>2\<^sup>4\<close>
  is delivered as an infinity and a result of magnitude below \<open>2\<^sup>-\<^sup>1\<^sup>0\<^sup>7\<^sup>5\<close> as
  zero, under every rounding to nearest.  Rounding inside the range is not
  modelled.
\<close>

fun clip :: "dbl \<Rightarrow> dbl" where
  "clip (Fin x) =
     (if 2 ^ 1024 \<le> x then PInf
      else if x \<le> - (2 ^ 1024) then NInf
      else if \<bar>x\<bar> < 1 / 2 ^ 1075 then Fin 0
      else Fin x)"
| "clip PInf = PInf"
| "clip NInf = NInf"
| "clip NaN = NaN"

text \<open>
  The binary64 values of the three decimal literals of the source that are
  not binary fractions: \<^verbatim>\<open>1e-6\<close>, \<^verbatim>\<open>1e-8\<close> and \<^verbatim>\<open>3.14159265358979323846\<close>.
\<close>

definition lit64 :: "real \<Rightarrow> dbl" where
  "lit64 x =
     (if x = 1 / 1000000 then Fin (4722366482869645 / 2 ^ 72)
      else if x = 1 / 100000000 then Fin (3022314549036573 / 2 ^ 78)
      else if x = 314159265358979323846 / 100000000000000000000
        then Fin (884279719003555 / 2 ^ 48)
      else clip (Fin x))"

text \<open>The exact arithmetic cut to the range of binary64.\<close>

definition ranged_fp :: "dbl arith" where
  "ranged_fp =
     \<lparr> lit = lit64, fneg = uminus,
       fadd = (\<lambda>x y. clip (x + y)), fsub = (\<lambda>x y. clip (x - y)),
       fmul = (\<lambda>x y. clip (x * y)), fdiv = (\<lambda>x y. clip (x / y)),
       fabs = abs, flt = (<), fle = (\<le>), feq = deq,
       fsqrt = (\<lambda>x. clip (dsqrt x)), fcos = (\<lambda>x. clip (dcos x)),
       fsin = (\<lambda>x. clip (dsin x)), fcosh = (\<lambda>x. clip (dcosh x)),
       fsinh = (\<lambda>x. clip (dsinh x)), fpow15 = (\<lambda>x. clip (dpow15 x)),
       fatan2 = (\<lambda>y x. clip (datan2 y x)) \<rparr>"

subsection \<open>Notions used in the statements and proofs\<close>

text \<open>
  Two states of the loop variables that differ at most in what \<^verbatim>\<open>y\<close> and \<^verbatim>\<open>F\<close>
  held at their declaration: before the first pass, or after a first pass
  through the inner loop, which has assigned \<^verbatim>\<open>y\<close> but not \<^verbatim>\<open>F\<close>.
\<close>

definition same_run :: "'d arith \<Rightarrow> 'd \<Rightarrow> 'd \<Rightarrow> 'd \<Rightarrow> 'd locals \<Rightarrow> 'd locals \<Rightarrow> bool" where
  "same_run a r1_norm r2_norm A st st' \<longleftrightarrow>
     loc_z st = loc_z st' \<and> loc_iteration st = loc_iteration st' \<and>
     (loc_iteration st = 0 \<or>
      loc_y st = loc_y st' \<and>
      (loc_F st = loc_F st' \<or>
       loc_iteration st = 1 \<and> \<not> flt a (y_fp a r1_norm r2_norm A (loc_z st)) (lit a 0)))"

text \<open>The value of \<^verbatim>\<open>F\<close> after \<open>k\<close> passes is the residual that one of them
  computed.\<close>

definition F_assigned ::
  "'d arith \<Rightarrow> 'd \<Rightarrow> 'd \<Rightarrow> 'd \<Rightarrow> 'd \<Rightarrow> 'd \<Rightarrow> 'd locals \<Rightarrow> nat \<Rightarrow> 'd locals \<Rightarrow> bool" where
  "F_assigned a r1_norm r2_norm A mu tof st0 k st \<longleftrightarrow>
     (\<exists>j s. j < k \<and> after_fp a r1_norm r2_norm A mu tof j st0 = Some s \<and>
        \<not> flt a (y_fp a r1_norm r2_norm A (loc_z s)) (lit a 0) \<and>
        loc_F st = residual_fp a r1_norm r2_norm A mu tof (loc_z s))"

text \<open>The loop variables of the first translation as those of the second, with
  \<open>y0\<close> and \<open>F0\<close> for what has not been assigned.\<close>

definition locals_of :: "dbl \<Rightarrow> dbl \<Rightarrow> loop_state \<Rightarrow> dbl locals" where
  "locals_of y0 F0 st =
     \<lparr> loc_z = cur_z st,
       loc_y = (case cur_y st of None \<Rightarrow> y0 | Some y \<Rightarrow> y),
       loc_F = (case cur_F st of None \<Rightarrow> F0 | Some F \<Rightarrow> F),
       loc_iteration = iteration st \<rparr>"

fun step_of :: "dbl \<Rightarrow> dbl \<Rightarrow> pass_end \<Rightarrow> dbl step" where
  "step_of y0 F0 (Continue st) = Continue_fp (locals_of y0 F0 st)"
| "step_of y0 F0 (Break y) = Break_fp y"
| "step_of y0 F0 Throw = Throw_fp"

text \<open>The number of passes, among the first \<open>k\<close>, that evaluate \<^verbatim>\<open>F\<close> (a Newton
  iteration), and the number of those that go through the inner loop.\<close>

fun newton_fp ::
  "'d arith \<Rightarrow> 'd \<Rightarrow> 'd \<Rightarrow> 'd \<Rightarrow> 'd \<Rightarrow> 'd \<Rightarrow> nat \<Rightarrow> 'd locals \<Rightarrow> nat" where
  "newton_fp a r1_norm r2_norm A mu tof 0 st = 0"
| "newton_fp a r1_norm r2_norm A mu tof (Suc k) st =
     (if flt a (y_fp a r1_norm r2_norm A (loc_z st)) (lit a 0) then 0 else 1) +
     (case pass_fp a r1_norm r2_norm A mu tof st of
        Some (Continue_fp st') \<Rightarrow> newton_fp a r1_norm r2_norm A mu tof k st'
      | _ \<Rightarrow> 0)"

fun repair_fp ::
  "'d arith \<Rightarrow> 'd \<Rightarrow> 'd \<Rightarrow> 'd \<Rightarrow> 'd \<Rightarrow> 'd \<Rightarrow> nat \<Rightarrow> 'd locals \<Rightarrow> nat" where
  "repair_fp a r1_norm r2_norm A mu tof 0 st = 0"
| "repair_fp a r1_norm r2_norm A mu tof (Suc k) st =
     (if flt a (y_fp a r1_norm r2_norm A (loc_z st)) (lit a 0) then 1 else 0) +
     (case pass_fp a r1_norm r2_norm A mu tof st of
        Some (Continue_fp st') \<Rightarrow> repair_fp a r1_norm r2_norm A mu tof k st'
      | _ \<Rightarrow> 0)"


definition r1_huge :: "dbl Vector3" where
  "r1_huge = \<lparr> vx = Fin (2 ^ 600), vy = Fin 0, vz = Fin 0 \<rparr>"

definition r2_huge :: "dbl Vector3" where
  "r2_huge = \<lparr> vx = Fin 0, vy = Fin (2 ^ 600), vz = Fin 0 \<rparr>"

text \<open>The binary64 values of \<^verbatim>\<open>PI\<close> and of \<^verbatim>\<open>1e-6\<close>.\<close>

definition PI_64 :: real where
  "PI_64 = 884279719003555 / 2 ^ 48"

definition threshold_64 :: real where
  "threshold_64 = 4722366482869645 / 2 ^ 72"

text \<open>An argument of the Stumpff functions far from zero.\<close>

definition z_far :: dbl where
  "z_far = Fin (- (2 ^ 684))"

text \<open>A number of magnitude at most \<open>B\<close>.\<close>

definition bounded_by :: "real \<Rightarrow> dbl \<Rightarrow> bool" where
  "bounded_by B x \<longleftrightarrow> (\<exists>r. x = Fin r \<and> \<bar>r\<bar> \<le> B)"

section \<open>Properties\<close>

subsection \<open>Arithmetic on finite values\<close>

lemma Fin_minus [simp]: "Fin a - Fin b = Fin (a - b)"
  by (simp add: minus_dbl_def)

lemma NaN_minus [simp]: "NaN - b = NaN" "a - NaN = NaN"
  by (cases b; simp add: minus_dbl_def) (cases a; simp add: minus_dbl_def)

lemma deq_Fin [simp]: "deq a (Fin b) \<longleftrightarrow> a = Fin b"
  by (auto simp: deq_def)

subsection \<open>The input check\<close>

lemma norm_v_zero_iff:
  "norm_v \<lparr> vx = Fin a, vy = Fin b, vz = Fin c \<rparr> = Fin 0 \<longleftrightarrow> a = 0 \<and> b = 0 \<and> c = 0"
proof -
  have "0 \<le> a * a" "0 \<le> b * b" "0 \<le> c * c" by simp_all
  then have "a * a + b * b + c * c = 0 \<longleftrightarrow> a = 0 \<and> b = 0 \<and> c = 0"
    by (auto simp: add_nonneg_eq_0_iff)
  moreover have "\<not> a * a + b * b + c * c < 0"
    using \<open>0 \<le> a * a\<close> \<open>0 \<le> b * b\<close> \<open>0 \<le> c * c\<close> by linarith
  ultimately show ?thesis by (simp add: norm_v_def)
qed

subsection \<open>Propagation of NaN\<close>

lemma NaN_plus [simp]: "a + NaN = NaN" "NaN + a = NaN"
  by (cases a; simp)+

lemma NaN_times [simp]: "a * NaN = NaN" "NaN * a = NaN"
  by (cases a; simp)+

lemma NaN_divide [simp]: "a / NaN = NaN" "NaN / a = NaN"
  by (cases a; simp)+

lemma NaN_less [simp]: "\<not> a < NaN" "\<not> NaN < a"
  by (cases a; simp)+

lemma y_at_NaN: "y_at r1_norm r2_norm NaN z = NaN"
  by (simp add: y_at_def)

lemma pass_NaN:
  "pass r1_norm r2_norm NaN mu tof st =
     Some (Continue \<lparr> cur_z = z_low, cur_y = Some NaN, cur_F = Some NaN,
                      iteration = iteration st + 1 \<rparr>)"
  by (simp add: pass_def y_at_NaN Let_def dmax_def dmin_def)

lemma loop_NaN_aux:
  "max_iterations - iteration st = n \<Longrightarrow> 0 < n \<Longrightarrow>
   loop r1_norm r2_norm NaN mu tof st =
     Some (Exhausted \<lparr> cur_z = z_low, cur_y = Some NaN, cur_F = Some NaN,
                       iteration = max_iterations \<rparr>)"
proof (induction n arbitrary: st)
  case 0
  then show ?case by simp
next
  case (Suc n)
  let ?st = "\<lparr> cur_z = z_low, cur_y = Some NaN, cur_F = Some NaN, iteration = iteration st + 1 \<rparr>"
  have lt: "iteration st < max_iterations" using Suc.prems by simp
  have step: "loop r1_norm r2_norm NaN mu tof st = loop r1_norm r2_norm NaN mu tof ?st"
    using lt by (subst loop.simps) (simp add: pass_NaN)
  show ?case
  proof (cases n)
    case 0
    then have "iteration ?st = max_iterations" using Suc.prems by simp
    then have "loop r1_norm r2_norm NaN mu tof ?st = Some (Exhausted ?st)"
      by (subst loop.simps) simp
    then show ?thesis using step \<open>iteration ?st = max_iterations\<close> by simp
  next
    case (Suc m)
    then have "max_iterations - iteration ?st = n" "0 < n" using Suc.prems by simp_all
    from Suc.IH [OF this] show ?thesis using step by simp
  qed
qed

lemma loop_NaN:
  "loop r1_norm r2_norm NaN mu tof (initial_state dth) =
     Some (Exhausted \<lparr> cur_z = z_low, cur_y = Some NaN, cur_F = Some NaN,
                       iteration = max_iterations \<rparr>)"
  by (rule loop_NaN_aux [OF refl]) (simp add: initial_state_def max_iterations_def)

subsection \<open>The same vector twice\<close>

lemma sqrt_49000000: "sqrt 49000000 = 7000"
  by (rule real_sqrt_unique) simp_all

lemma same_vector_norm: "norm_v \<lparr> vx = Fin 7000, vy = Fin 0, vz = Fin 0 \<rparr> = Fin 7000"
  by (simp add: norm_v_def sqrt_49000000)

lemma same_vector_A:
  "A_of \<lparr> vx = Fin 7000, vy = Fin 0, vz = Fin 0 \<rparr> \<lparr> vx = Fin 7000, vy = Fin 0, vz = Fin 0 \<rparr>
     is_prograde = NaN"
proof -
  let ?r = "\<lparr> vx = Fin 7000, vy = Fin 0, vz = Fin 0 \<rparr>"
  have c: "cos_dtheta ?r ?r = Fin 1"
    by (simp add: cos_dtheta_def same_vector_norm dot_def dmax_def dmin_def)
  have s: "sin_dtheta ?r ?r is_prograde = Fin 0"
    by (simp add: sin_dtheta_def same_vector_norm cross_def norm_v_def Let_def)
  show ?thesis
    by (simp add: A_of_def same_vector_norm c s)
qed

text \<open>
  Claim C4 (the code at the input \<open>r1 = r2 = (7000, 0, 0)\<close>).  The cosine of
  the transfer angle is 1 and the sine is 0, so \<^verbatim>\<open>A\<close> is
  \<open>0 \<sqdot> \<surd>(r1_norm \<sqdot> r2_norm / 0) = 0 \<sqdot> \<infinity>\<close>, which is NaN and not zero: the test
  \<^verbatim>\<open>A == 0\<close> is false, the error "Cannot compute A." is not thrown, the
  iteration runs through its 1000 passes on NaN and \<^verbatim>\<open>solve\<close> throws the
  error that reports no convergence, for every \<^verbatim>\<open>mu\<close>, time of flight and flag.
\<close>

theorem solve_same_vector:
  "solve mu \<lparr> vx = Fin 7000, vy = Fin 0, vz = Fin 0 \<rparr> \<lparr> vx = Fin 7000, vy = Fin 0, vz = Fin 0 \<rparr>
     tof is_prograde =
   Some (Inl (NonConvergence (Some NaN) z_low (Some NaN)
     \<lparr> vx = Fin 7000, vy = Fin 0, vz = Fin 0 \<rparr> \<lparr> vx = Fin 7000, vy = Fin 0, vz = Fin 0 \<rparr>
     tof is_prograde))"
  by (simp add: solve_def Let_def same_vector_norm same_vector_A loop_NaN deq_def)

subsection \<open>The inner loop\<close>

lemma mid_Fin [simp]: "mid (Fin l) (Fin h) = Fin ((l + h) / 2)"
  by (simp add: mid_def)

lemma bracket_post_mono:
  "bracket_post r1_norm r2_norm A l' h' res \<Longrightarrow> l \<le> l' \<Longrightarrow> h' \<le> h \<Longrightarrow>
   bracket_post r1_norm r2_norm A l h res"
  unfolding bracket_post_def by force

lemma bracket_result_aux:
  assumes "bracket r1_norm r2_norm A lo hi z y = Some res"
  shows "(\<forall>l h x. lo = Fin l \<longrightarrow> hi = Fin h \<longrightarrow> z = Fin x \<longrightarrow> l \<le> x \<longrightarrow> x \<le> h \<longrightarrow>
            y = y_at r1_norm r2_norm A (Fin x) \<longrightarrow> bracket_post r1_norm r2_norm A l h res)"
proof (rule bracket.raw_induct
    [where P = "\<lambda>r1_norm r2_norm A lo hi z y res.
       \<forall>l h x. lo = Fin l \<longrightarrow> hi = Fin h \<longrightarrow> z = Fin x \<longrightarrow> l \<le> x \<longrightarrow> x \<le> h \<longrightarrow>
            y = y_at r1_norm r2_norm A (Fin x) \<longrightarrow> bracket_post r1_norm r2_norm A l h res"],
    goal_cases)
  case (1 bracket' r1_norm r2_norm A lo hi z y res)
  show ?case
  proof (intro allI impI)
    fix l h x
    assume lo: "lo = Fin l" and hi: "hi = Fin h" and z: "z = Fin x"
      and lx: "l \<le> x" and xh: "x \<le> h" and y: "y = y_at r1_norm r2_norm A (Fin x)"
    show "bracket_post r1_norm r2_norm A l h res"
    proof (cases "y < Fin 0")
      case False
      then have "res = (z, y)" using 1(2) by simp
      then show ?thesis using False lx xh unfolding bracket_post_def z y by simp
    next
      case True
      define m where "m = (l + h) / 2"
      have lh: "l \<le> m" "m \<le> h" using lx xh by (simp_all add: m_def)
      have md: "mid lo hi = Fin m" by (simp add: lo hi m_def)
      show ?thesis
      proof (cases "m < 0")
        case neg: True
        have "bracket' r1_norm r2_norm A (Fin m) (Fin h) (Fin m)
                (y_at r1_norm r2_norm A (Fin m)) = Some res"
          using 1(2) True neg by (simp add: lo hi m_def)
        from 1(1) [OF this] have "bracket_post r1_norm r2_norm A m h res"
          using lh by blast
        then show ?thesis using lh by (auto intro: bracket_post_mono)
      next
        case pos: False
        have "bracket' r1_norm r2_norm A (Fin l) (Fin m) (Fin m)
                (y_at r1_norm r2_norm A (Fin m)) = Some res"
          using 1(2) True pos by (simp add: lo hi m_def)
        from 1(1) [OF this] have "bracket_post r1_norm r2_norm A l m res"
          using lh by blast
        then show ?thesis using lh by (auto intro: bracket_post_mono)
      qed
    qed
  qed
qed (rule assms)

subsection \<open>The bound on \<^verbatim>\<open>z\<close>\<close>

lemma z_low_Fin: "z_low = Fin (- (4 * PI_r * PI_r))"
  by (simp add: z_low_def PI_def)

lemma z_up_Fin: "z_up = Fin (4 * PI_r * PI_r)"
  by (simp add: z_up_def PI_def)

lemma PI_r_sq_nonneg: "0 \<le> 4 * PI_r * PI_r"
  by (simp add: PI_r_def)

lemma clamp_bounds: "\<exists>v. dmax z_low (dmin z z_up) = Fin v \<and> \<bar>v\<bar> \<le> 4 * PI_r * PI_r"
  using PI_r_sq_nonneg by (cases z) (auto simp: dmax_def dmin_def z_low_Fin z_up_Fin)

lemma step_limit:
  "(if Fin 10 < \<bar>d\<bar> then (if Fin 0 < d then Fin 10 else - Fin 10) else d) = NaN \<or>
   (\<exists>r. (if Fin 10 < \<bar>d\<bar> then (if Fin 0 < d then Fin 10 else - Fin 10) else d) = Fin r \<and> \<bar>r\<bar> \<le> 10)"
  by (cases d) auto

lemma PI_r_sq_bound: "8 * PI_r * PI_r + 10 < 1000000"
  by (simp add: PI_r_def)

lemma pass_keeps_z_inv:
  assumes inv: "z_inv r1_norm r2_norm A (cur_z st)"
    and p: "pass r1_norm r2_norm A mu tof st = Some pe"
  shows "pe \<noteq> Throw \<and> (\<forall>st'. pe = Continue st' \<longrightarrow> z_inv r1_norm r2_norm A (cur_z st'))"
proof -
  from inv obtain x where x: "cur_z st = Fin x"
    and xb: "\<bar>x\<bar> \<le> 4 * PI_r * PI_r \<or>
             \<bar>x\<bar> \<le> 8 * PI_r * PI_r \<and> \<not> y_at r1_norm r2_norm A (Fin x) < Fin 0"
    unfolding z_inv_def by blast
  show ?thesis
  proof (cases "y_at r1_norm r2_norm A (Fin x) < Fin 0")
    case True
    then have xB: "\<bar>x\<bar> \<le> 4 * PI_r * PI_r" using xb by blast
    define h where "h = (if x < 0 then 0 else x * 2)"
    have hi: "(if Fin x < Fin 0 then Fin 0 else Fin x * Fin 2) = Fin h"
      by (simp add: h_def)
    from p True obtain res where
      b: "bracket r1_norm r2_norm A (Fin x) (Fin h) (Fin x) (y_at r1_norm r2_norm A (Fin x)) = Some res"
      and pe: "pe = Continue (st\<lparr> cur_z := fst res, cur_y := Some (snd res),
                                   iteration := iteration st + 1 \<rparr>)"
      unfolding pass_def Let_def x hi by (auto split: option.splits)
    have "x \<le> h" by (simp add: h_def)
    with bracket_result_aux [OF b] have "bracket_post r1_norm r2_norm A x h res"
      by blast
    then obtain x' where x': "fst res = Fin x'" "x \<le> x'" "x' \<le> h"
      "\<not> y_at r1_norm r2_norm A (Fin x') < Fin 0"
      unfolding bracket_post_def by auto
    have "\<bar>x'\<bar> \<le> 8 * PI_r * PI_r" using x'(2,3) xB by (auto simp: h_def split: if_splits)
    then show ?thesis using x' pe by (auto simp: z_inv_def)
  next
    case False
    have xB: "\<bar>x\<bar> \<le> 8 * PI_r * PI_r" using xb PI_r_sq_nonneg by auto
    define y where "y = y_at r1_norm r2_norm A (Fin x)"
    define F where "F = y * stumpff_S (Fin x) + A * dsqrt y - dsqrt mu * tof"
    define d where "d = Fin (1 / 2) * F / ((y * stumpff_C (Fin x) + A * stumpff_S (Fin x) * dsqrt y) / (Fin 2 * stumpff_C (Fin x)))"
    define d' where "d' = (if Fin 10 < \<bar>d\<bar> then (if Fin 0 < d then Fin 10 else - Fin 10) else d)"
    have p': "pe = (if \<bar>F\<bar> < tolerance then Break y
               else if Fin 1000000 < \<bar>Fin x - d'\<bar> then Throw
               else Continue \<lparr> cur_z = dmax z_low (dmin (Fin x - d') z_up), cur_y = Some y,
                                cur_F = Some F, iteration = iteration st + 1 \<rparr>)"
      using p False unfolding pass_def Let_def x y_def F_def d_def d'_def by (simp split: if_splits)
    have nt: "\<not> Fin 1000000 < \<bar>Fin x - d'\<bar>"
      using step_limit [of d] xB PI_r_sq_bound unfolding d'_def [symmetric] by auto
    obtain v where v: "dmax z_low (dmin (Fin x - d') z_up) = Fin v" "\<bar>v\<bar> \<le> 4 * PI_r * PI_r"
      using clamp_bounds by blast
    show ?thesis using p' nt v by (auto simp: z_inv_def)
  qed
qed

lemma z_inv_init: "z_inv r1_norm r2_norm A (cur_z (initial_state dth))"
  using PI_r_sq_nonneg by (auto simp: z_inv_def initial_state_def z_init_def PI_def)

lemma loop_never_diverges:
  "z_inv r1_norm r2_norm A (cur_z st) \<Longrightarrow> loop r1_norm r2_norm A mu tof st \<noteq> Some Diverged"
proof (induction r1_norm r2_norm A mu tof st rule: loop.induct)
  case (1 r1_norm r2_norm A mu tof st)
  show ?case
  proof (cases "iteration st < max_iterations")
    case False
    then show ?thesis by (subst loop.simps) simp
  next
    case True
    show ?thesis
    proof (cases "pass r1_norm r2_norm A mu tof st")
      case None
      then show ?thesis using True by (subst loop.simps) simp
    next
      case (Some pe)
      from pass_keeps_z_inv [OF "1.prems" Some]
      have nt: "pe \<noteq> Throw"
        and k: "\<And>st'. pe = Continue st' \<Longrightarrow> z_inv r1_norm r2_norm A (cur_z st')"
        by blast+
      show ?thesis
      proof (cases pe)
        case (Continue st')
        from "1.IH" [OF True Some Continue k [OF Continue]]
        show ?thesis using True Some Continue by (subst loop.simps) simp
      next
        case (Break y)
        then show ?thesis using True Some by (subst loop.simps) simp
      next
        case Throw
        then show ?thesis using nt by simp
      qed
    qed
  qed
qed

text \<open>
  Claim C10.  At the head of the outer loop \<^verbatim>\<open>z\<close> is a number within
  \<open>4 \<sqdot> PI\<^sup>2\<close> of zero, or within \<open>8 \<sqdot> PI\<^sup>2\<close> after a pass through the inner loop; a
  step changes it by at most 10 or gives NaN.  So the test \<^verbatim>\<open>abs(z) > 1e6\<close> is
  never true: \<^verbatim>\<open>solve\<close> never throws "z exceeded reasonable bounds.", for any
  input.
\<close>

theorem solve_never_diverges:
  "solve mu r1 r2 tof is_prograde \<noteq> Some (Inl NumericalDivergence)"
  using loop_never_diverges [OF z_inv_init, of "norm_v r1" "norm_v r2" "A_of r1 r2 is_prograde" mu tof "dtheta r1 r2 is_prograde"]
  by (auto simp: solve_def Let_def split: option.splits loop_end.splits)

subsection \<open>Passes of the outer loop\<close>

lemma pass_iteration:
  "pass r1_norm r2_norm A mu tof st = Some (Continue st') \<Longrightarrow> iteration st' = iteration st + 1"
  by (auto simp: pass_def Let_def split: if_splits option.splits prod.splits)

lemma pass_break_iff:
  "pass r1_norm r2_norm A mu tof st = Some (Break y) \<longleftrightarrow>
     y = y_at r1_norm r2_norm A (cur_z st) \<and> \<not> y < Fin 0 \<and>
     \<bar>residual r1_norm r2_norm A mu tof (cur_z st)\<bar> < tolerance"
  by (auto simp: pass_def residual_def Let_def split: option.splits prod.splits)

lemma after_passes_iteration:
  "after_passes r1_norm r2_norm A mu tof k st = Some st' \<Longrightarrow> iteration st' = iteration st + k"
proof (induction k arbitrary: st)
  case 0
  then show ?case by simp
next
  case (Suc k)
  then show ?case
    by (auto split: option.splits pass_end.splits dest!: pass_iteration)
qed

lemma loop_converged_iff:
  "loop r1_norm r2_norm A mu tof st = Some (Converged y) \<longleftrightarrow>
     (\<exists>k st'. iteration st + k < max_iterations \<and>
        after_passes r1_norm r2_norm A mu tof k st = Some st' \<and>
        pass r1_norm r2_norm A mu tof st' = Some (Break y))"
proof (induction r1_norm r2_norm A mu tof st rule: loop.induct)
  case (1 r1_norm r2_norm A mu tof st)
  let ?R = "\<lambda>st. \<exists>k st'. iteration st + k < max_iterations \<and>
        after_passes r1_norm r2_norm A mu tof k st = Some st' \<and>
        pass r1_norm r2_norm A mu tof st' = Some (Break y)"
  show ?case
  proof (cases "iteration st < max_iterations")
    case False
    then show ?thesis by (subst loop.simps) simp
  next
    case True
    have split: "?R st \<longleftrightarrow> pass r1_norm r2_norm A mu tof st = Some (Break y) \<or>
        (\<exists>k st'. iteration st + Suc k < max_iterations \<and>
           after_passes r1_norm r2_norm A mu tof (Suc k) st = Some st' \<and>
           pass r1_norm r2_norm A mu tof st' = Some (Break y))"
      (is "_ \<longleftrightarrow> ?L")
    proof
      assume "?R st"
      then obtain k st' where k: "iteration st + k < max_iterations"
        "after_passes r1_norm r2_norm A mu tof k st = Some st'"
        "pass r1_norm r2_norm A mu tof st' = Some (Break y)" by blast
      show ?L
      proof (cases k)
        case 0
        with k show ?thesis by simp
      next
        case (Suc k')
        with k show ?thesis by blast
      qed
    next
      assume ?L
      then show "?R st"
      proof
        assume "pass r1_norm r2_norm A mu tof st = Some (Break y)"
        then show ?thesis using True
          by (intro exI [of _ 0] exI [of _ st]) simp
      next
        assume "\<exists>k st'. iteration st + Suc k < max_iterations \<and>
           after_passes r1_norm r2_norm A mu tof (Suc k) st = Some st' \<and>
           pass r1_norm r2_norm A mu tof st' = Some (Break y)"
        then show ?thesis by blast
      qed
    qed
    show ?thesis
    proof (cases "pass r1_norm r2_norm A mu tof st")
      case None
      then show ?thesis unfolding split using True by (subst loop.simps) simp
    next
      case (Some pe)
      show ?thesis
      proof (cases pe)
        case (Continue st1)
        have it: "iteration st1 = iteration st + 1"
          using Some Continue by (auto dest: pass_iteration)
        have "loop r1_norm r2_norm A mu tof st = loop r1_norm r2_norm A mu tof st1"
          using True Some Continue by (subst loop.simps) simp
        also have "\<dots> = Some (Converged y) \<longleftrightarrow> ?R st1"
          using "1.IH" [OF True Some Continue] .
        also have "?R st1 \<longleftrightarrow> ?R st"
          unfolding split [of ] using Some Continue it by simp
        finally show ?thesis .
      next
        case (Break y')
        then show ?thesis unfolding split using True Some by (subst loop.simps) auto
      next
        case Throw
        then show ?thesis unfolding split using True Some by (subst loop.simps) simp
      qed
    qed
  qed
qed

lemma loop_exhausted_iff:
  "loop r1_norm r2_norm A mu tof st = Some (Exhausted st') \<longleftrightarrow>
     after_passes r1_norm r2_norm A mu tof (max_iterations - iteration st) st = Some st'"
proof (induction r1_norm r2_norm A mu tof st rule: loop.induct)
  case (1 r1_norm r2_norm A mu tof st)
  show ?case
  proof (cases "iteration st < max_iterations")
    case False
    then show ?thesis by (subst loop.simps) auto
  next
    case True
    then obtain n where n: "max_iterations - iteration st = Suc n"
      by (cases "max_iterations - iteration st") simp_all
    show ?thesis
    proof (cases "pass r1_norm r2_norm A mu tof st")
      case None
      then show ?thesis unfolding n using True by (subst loop.simps) simp
    next
      case (Some pe)
      show ?thesis
      proof (cases pe)
        case (Continue st1)
        have "iteration st1 = iteration st + 1"
          using Some Continue by (auto dest: pass_iteration)
        then have n1: "max_iterations - iteration st1 = n" using n by simp
        have "loop r1_norm r2_norm A mu tof st = loop r1_norm r2_norm A mu tof st1"
          using True Some Continue by (subst loop.simps) simp
        then show ?thesis
          using "1.IH" [OF True Some Continue] unfolding n n1 using Some Continue by simp
      next
        case (Break y)
        then show ?thesis unfolding n using True Some by (subst loop.simps) simp
      next
        case Throw
        then show ?thesis unfolding n using True Some by (subst loop.simps) simp
      qed
    qed
  qed
qed

lemma after_passes_Suc:
  "after_passes r1_norm r2_norm A mu tof (Suc k) st = Some st'' \<longleftrightarrow>
     (\<exists>st'. after_passes r1_norm r2_norm A mu tof k st = Some st' \<and>
            pass r1_norm r2_norm A mu tof st' = Some (Continue st''))"
proof (induction k arbitrary: st)
  case 0
  show ?case by (auto split: option.splits pass_end.splits)
next
  case (Suc k)
  show ?case
  proof (cases "pass r1_norm r2_norm A mu tof st")
    case None
    then show ?thesis by simp
  next
    case (Some pe)
    then show ?thesis using Suc.IH by (cases pe) simp_all
  qed
qed

lemma after_passes_z_inv:
  "after_passes r1_norm r2_norm A mu tof k st = Some st' \<Longrightarrow>
   z_inv r1_norm r2_norm A (cur_z st) \<Longrightarrow> z_inv r1_norm r2_norm A (cur_z st')"
proof (induction k arbitrary: st')
  case 0
  then show ?case by simp
next
  case (Suc k)
  from Suc.prems(1) obtain st1 where
    a: "after_passes r1_norm r2_norm A mu tof k st = Some st1"
    and p: "pass r1_norm r2_norm A mu tof st1 = Some (Continue st')"
    unfolding after_passes_Suc by blast
  from Suc.IH [OF a Suc.prems(2)] pass_keeps_z_inv [OF _ p] show ?case by blast
qed

subsection \<open>The hyperbolic branch\<close>

lemma powr_three_halves:
  fixes w :: real
  assumes "0 \<le> w"
  shows "(w * w) powr (3 / 2) = w * w * w"
proof -
  have "(w * w) powr (3 / 2) = sqrt ((w * w) powr 3)"
    using powr_half_sqrt_powr [of "w * w" 3] by simp
  also have "(w * w) powr 3 = (w * w * w) * (w * w * w)"
    using assms by (simp add: power3_eq_cube)
  also have "sqrt ((w * w * w) * (w * w * w)) = w * w * w"
    using assms by simp
  finally show ?thesis .
qed

lemma sinh_over_sqrt:
  fixes w :: real
  assumes "0 < w"
  shows "sinh w / sqrt (cosh w - 1) = sqrt (cosh w + 1)"
proof -
  have c: "0 < cosh w - 1"
    using cosh_real_ge_1 [of w] cosh_real_one_iff [of w] assms by linarith
  have "sinh w = sqrt ((sinh w)\<^sup>2)" using assms by simp
  also have "(sinh w)\<^sup>2 = (cosh w - 1) * (cosh w + 1)"
    using cosh_square_eq [of w] by (simp add: power2_eq_square algebra_simps)
  also have "sqrt \<dots> = sqrt (cosh w - 1) * sqrt (cosh w + 1)"
    by (rule real_sqrt_mult)
  finally have "sinh w = sqrt (cosh w - 1) * sqrt (cosh w + 1)" .
  moreover have "sqrt (cosh w - 1) \<noteq> 0" using assms by simp
  ultimately show ?thesis by (simp add: field_simps)
qed

lemma y_at_hyperbolic:
  assumes "x < - (1 / 1000000)"
  shows "y_at (Fin p) (Fin q) (Fin a) (Fin x) = Fin (p + q - a * sqrt (cosh (sqrt (- x)) + 1))"
proof -
  define w where "w = sqrt (- x)"
  have w: "0 < w" and x: "x = - (w * w)" using assms by (simp_all add: w_def)
  have c: "0 < cosh w - 1"
    using cosh_real_ge_1 [of w] cosh_real_one_iff [of w] w by linarith
  have C: "stumpff_C (Fin x) = Fin ((cosh w - 1) / (w * w))"
    using assms by (simp add: stumpff_C_def w_def)
  have S: "stumpff_S (Fin x) = Fin ((sinh w - w) / (w * w * w))"
    using assms w powr_three_halves [of w] by (simp add: stumpff_S_def x)
  have sq: "sqrt ((cosh w - 1) / (w * w)) = sqrt (cosh w - 1) / w"
    using w by (simp add: real_sqrt_divide)
  have nz: "sqrt (cosh w - 1) / w \<noteq> 0" using c w by simp
  have nn: "\<not> (cosh w - 1) / (w * w) < 0" using c w by (simp add: not_less)
  have "y_at (Fin p) (Fin q) (Fin a) (Fin x) =
        Fin (p + q + a * (x * ((sinh w - w) / (w * w * w)) - 1) / (sqrt (cosh w - 1) / w))"
    using nz nn unfolding y_at_def C S by (simp add: sq)
  also have "x * ((sinh w - w) / (w * w * w)) - 1 = - (sinh w / w)"
    using w by (simp add: x field_simps)
  also have "a * (- (sinh w / w)) / (sqrt (cosh w - 1) / w) = - (a * (sinh w / sqrt (cosh w - 1)))"
    using w c by (simp add: field_simps)
  also have "sinh w / sqrt (cosh w - 1) = sqrt (cosh w + 1)"
    using w by (rule sinh_over_sqrt)
  finally show ?thesis by (simp add: w_def)
qed

subsection \<open>A call that converges\<close>

lemma z_low_small: "- (4 * PI_r * PI_r) < - (1 / 1000000)"
  by (simp add: PI_r_def)

lemma y_example: "y_at (Fin 1) (Fin 1) (Fin (- 1)) z_low = Fin y_example"
  unfolding z_low_Fin using y_at_hyperbolic [OF z_low_small, of 1 1 "- 1"]
  by (simp add: y_example_def)

lemma y_example_pos: "0 < y_example"
proof -
  have "0 \<le> sqrt (cosh (sqrt (4 * PI_r * PI_r)) + 1)" by simp
  then show ?thesis unfolding y_example_def by linarith
qed

lemma stumpff_S_finite: "\<exists>s. stumpff_S (Fin x) = Fin s"
  by (auto simp: stumpff_S_def)

lemma example_residual:
  "residual (Fin 1) (Fin 1) (Fin (- 1)) (Fin 1) example_tof z_low = Fin 0"
proof -
  obtain s where s: "stumpff_S z_low = Fin s"
    unfolding z_low_Fin using stumpff_S_finite by blast
  have "\<not> y_example < 0" using y_example_pos by simp
  then show ?thesis
    unfolding example_tof_def residual_def Let_def y_example s by simp
qed

lemma example_norms: "norm_v r1_example = Fin 1" "norm_v r2_example = Fin 1"
  by (simp_all add: norm_v_def r1_example_def r2_example_def)

lemma example_cos: "cos_dtheta r1_example r2_example = Fin 0"
  unfolding cos_dtheta_def example_norms
  by (simp add: dot_def dmax_def dmin_def r1_example_def r2_example_def)

lemma example_sin: "sin_dtheta r1_example r2_example True = Fin (- 1)"
  unfolding sin_dtheta_def example_norms
  by (simp add: Let_def cross_def norm_v_def r1_example_def r2_example_def)

lemma example_A: "A_of r1_example r2_example True = Fin (- 1)"
  by (simp add: A_of_def example_norms example_cos example_sin)

lemma example_dtheta: "dtheta r1_example r2_example True = Fin (2 * PI_r - pi / 2)"
  by (simp add: dtheta_def example_sin example_cos atan2r_def Let_def PI_def)

lemma example_init: "initial_state (dtheta r1_example r2_example True) =
    \<lparr> cur_z = z_low, cur_y = None, cur_F = None, iteration = 0 \<rparr>"
proof -
  have "PI_r < 2 * PI_r - pi / 2" using pi_half_less_two by (simp add: PI_r_def)
  then show ?thesis
    by (simp add: initial_state_def example_dtheta z_init_def z_low_def PI_def)
qed

lemma example_loop:
  "loop (Fin 1) (Fin 1) (Fin (- 1)) (Fin 1) example_tof
     \<lparr> cur_z = z_low, cur_y = None, cur_F = None, iteration = 0 \<rparr> = Some (Converged (Fin y_example))"
proof -
  have "pass (Fin 1) (Fin 1) (Fin (- 1)) (Fin 1) example_tof
     \<lparr> cur_z = z_low, cur_y = None, cur_F = None, iteration = 0 \<rparr> = Some (Break (Fin y_example))"
    unfolding pass_break_iff using y_example_pos
    by (simp add: y_example example_residual tolerance_def)
  then show ?thesis
    by (subst loop.simps) (simp add: max_iterations_def)
qed

lemma example_solve:
  "solve (Fin 1) r1_example r2_example example_tof True =
     Some (Inr (velocities (Fin 1) r1_example r2_example (Fin (- 1)) (Fin y_example)))"
  by (simp add: solve_def Let_def example_norms example_A example_init example_loop)

subsection \<open>Velocities\<close>

text \<open>
  Claim C1.  When \<^verbatim>\<open>solve\<close> returns \<open>(v1, v2)\<close>, there is a \<^verbatim>\<open>z\<close> at which the
  iteration met the tolerance, \<^verbatim>\<open>y\<close> is the value computed at that \<^verbatim>\<open>z\<close>, and
  with \<open>f = 1 - y / r1_norm\<close>, \<open>g = A \<sqdot> \<surd>(y / mu)\<close> and \<open>g_dot = 1 - y / r2_norm\<close>
  the result is \<open>v1 = (r2 - f \<sqdot> r1) / g\<close> and \<open>v2 = (g_dot \<sqdot> r2 - r1) / g\<close>, each
  component divided by \<open>g\<close>.
\<close>

theorem solve_velocities:
  assumes "solve mu r1 r2 tof is_prograde = Some (Inr (v1, v2))"
  shows "\<exists>z y. y = y_at (norm_v r1) (norm_v r2) (A_of r1 r2 is_prograde) z \<and>
           \<bar>residual (norm_v r1) (norm_v r2) (A_of r1 r2 is_prograde) mu tof z\<bar> < tolerance \<and>
           (let A = A_of r1 r2 is_prograde;
                f = Fin 1 - y / norm_v r1;
                g = A * dsqrt (y / mu);
                g_dot = Fin 1 - y / norm_v r2
            in v1 = \<lparr> vx = (vx r2 - f * vx r1) / g,
                      vy = (vy r2 - f * vy r1) / g,
                      vz = (vz r2 - f * vz r1) / g \<rparr> \<and>
               v2 = \<lparr> vx = (g_dot * vx r2 - vx r1) / g,
                      vy = (g_dot * vy r2 - vy r1) / g,
                      vz = (g_dot * vz r2 - vz r1) / g \<rparr>)"
proof -
  from assms obtain y where
    l: "loop (norm_v r1) (norm_v r2) (A_of r1 r2 is_prograde) mu tof
          (initial_state (dtheta r1 r2 is_prograde)) = Some (Converged y)"
    and v: "(v1, v2) = velocities mu r1 r2 (A_of r1 r2 is_prograde) y"
    by (auto simp: solve_def Let_def split: if_splits option.splits loop_end.splits)
  from l obtain st where
    "pass (norm_v r1) (norm_v r2) (A_of r1 r2 is_prograde) mu tof st = Some (Break y)"
    unfolding loop_converged_iff by blast
  then have "y = y_at (norm_v r1) (norm_v r2) (A_of r1 r2 is_prograde) (cur_z st)"
    "\<bar>residual (norm_v r1) (norm_v r2) (A_of r1 r2 is_prograde) mu tof (cur_z st)\<bar> < tolerance"
    unfolding pass_break_iff by simp_all
  moreover from v have "v1 = fst (velocities mu r1 r2 (A_of r1 r2 is_prograde) y)"
    "v2 = snd (velocities mu r1 r2 (A_of r1 r2 is_prograde) y)"
    by (metis fst_conv, metis snd_conv)
  ultimately show ?thesis
    by (intro exI [of _ "cur_z st"] exI [of _ y]) (simp add: velocities_def Let_def)
qed

theorem solve_velocities_witness:
  "\<exists>z y. y = y_at (Fin 1) (Fin 1) (Fin (- 1)) z \<and>
      \<bar>residual (Fin 1) (Fin 1) (Fin (- 1)) (Fin 1) example_tof z\<bar> < tolerance \<and>
      solve (Fin 1) r1_example r2_example example_tof True =
        Some (Inr (\<lparr> vx = (Fin 0 - (Fin 1 - y / Fin 1) * Fin 1) / (Fin (- 1) * dsqrt (y / Fin 1)),
                    vy = (Fin (- 1) - (Fin 1 - y / Fin 1) * Fin 0) / (Fin (- 1) * dsqrt (y / Fin 1)),
                    vz = (Fin 0 - (Fin 1 - y / Fin 1) * Fin 0) / (Fin (- 1) * dsqrt (y / Fin 1)) \<rparr>,
                  \<lparr> vx = ((Fin 1 - y / Fin 1) * Fin 0 - Fin 1) / (Fin (- 1) * dsqrt (y / Fin 1)),
                    vy = ((Fin 1 - y / Fin 1) * Fin (- 1) - Fin 0) / (Fin (- 1) * dsqrt (y / Fin 1)),
                    vz = ((Fin 1 - y / Fin 1) * Fin 0 - Fin 0) / (Fin (- 1) * dsqrt (y / Fin 1)) \<rparr>))"
proof -
  obtain v1 v2 where v: "velocities (Fin 1) r1_example r2_example (Fin (- 1)) (Fin y_example) = (v1, v2)"
    by (cases "velocities (Fin 1) r1_example r2_example (Fin (- 1)) (Fin y_example)")
  have s: "solve (Fin 1) r1_example r2_example example_tof True = Some (Inr (v1, v2))"
    by (simp add: example_solve v)
  from solve_velocities [OF s] show ?thesis
    unfolding s example_norms example_A Let_def
    by (simp add: r1_example_def r2_example_def)
qed

subsection \<open>The constant \<^verbatim>\<open>PI\<close> and the angle\<close>

lemma arctan_lower:
  fixes x :: real
  assumes "0 < x" "x \<le> 1"
  shows "(\<Sum>i<2 * n. (- 1) ^ i * (1 / real (i * 2 + 1) * x ^ (i * 2 + 1))) \<le> arctan x"
    and "arctan x \<le> (\<Sum>i<2 * n + 1. (- 1) ^ i * (1 / real (i * 2 + 1) * x ^ (i * 2 + 1)))"
proof -
  have ax: "\<bar>x\<bar> \<le> 1" using assms by simp
  have pos: "0 < 1 / real (0 * 2 + 1) * x ^ (0 * 2 + 1)" using assms by simp
  from summable_Leibniz(2) [OF zeroseq_arctan_series [OF ax] monoseq_arctan_series [OF ax], rule_format, OF pos, of n]
  show "(\<Sum>i<2 * n. (- 1) ^ i * (1 / real (i * 2 + 1) * x ^ (i * 2 + 1))) \<le> arctan x"
    and "arctan x \<le> (\<Sum>i<2 * n + 1. (- 1) ^ i * (1 / real (i * 2 + 1) * x ^ (i * 2 + 1)))"
    unfolding arctan_series [OF ax] by simp_all
qed

lemma PI_lit_less_pi: "(314159265358979323846 / 100000000000000000000 :: real) < pi"
proof -
  have l: "(\<Sum>i<2 * 8. (- 1) ^ i * (1 / real (i * 2 + 1) * (1 / 5 :: real) ^ (i * 2 + 1))) \<le> arctan (1 / 5)"
    by (rule arctan_lower(1)) simp_all
  have u: "arctan (1 / 239) \<le> (\<Sum>i<2 * 2 + 1. (- 1) ^ i * (1 / real (i * 2 + 1) * (1 / 239 :: real) ^ (i * 2 + 1)))"
    by (rule arctan_lower(2)) simp_all
  have "pi = 16 * arctan (1 / 5) - 4 * arctan (1 / 239)"
    using machin by simp
  moreover have "314159265358979323846 / 100000000000000000000
      < 16 * (\<Sum>i<2 * 8. (- 1) ^ i * (1 / real (i * 2 + 1) * (1 / 5 :: real) ^ (i * 2 + 1)))
        - 4 * (\<Sum>i<2 * 2 + 1. (- 1) ^ i * (1 / real (i * 2 + 1) * (1 / 239 :: real) ^ (i * 2 + 1)))"
    by (simp add: eval_nat_numeral)
  ultimately show ?thesis using l u by linarith
qed

lemma PI_r_less_pi: "PI_r < pi"
  unfolding PI_r_def by (rule PI_lit_less_pi)

lemma atan2r_range: "- pi < atan2r y x \<and> atan2r y x \<le> pi"
proof -
  have b: "- (pi / 2) < arctan (y / x)" "arctan (y / x) < pi / 2"
    by (rule arctan_lbound, rule arctan_ubound)
  consider "0 < x" | "x < 0" "0 \<le> y" | "x < 0" "y < 0" | "x = 0"
    by linarith
  then show ?thesis
  proof cases
    case 1
    then show ?thesis using b pi_gt_zero by (simp add: atan2r_def)
  next
    case 2
    then have "y / x \<le> 0" by (simp add: divide_nonneg_neg)
    then have "arctan (y / x) \<le> 0" by simp
    then show ?thesis using 2 b pi_gt_zero by (simp add: atan2r_def)
  next
    case 3
    then have "0 < y / x" by (simp add: divide_neg_neg)
    then have "0 < arctan (y / x)" by simp
    then show ?thesis using 3 b pi_gt_zero by (simp add: atan2r_def)
  next
    case 4
    then have "atan2r y x = pi / 2 \<or> atan2r y x = - (pi / 2) \<or> atan2r y x = 0"
      by (auto simp: atan2r_def)
    then show ?thesis using pi_gt_zero by (elim disjE; intro conjI; linarith)
  qed
qed

subsection \<open>Bounds on the hyperbolic cosine\<close>

lemma sinh_ge_self:
  fixes t :: real
  assumes "0 \<le> t"
  shows "t \<le> sinh t"
proof -
  have "sinh 0 - 0 \<le> sinh t - t"
  proof (rule DERIV_nonneg_imp_nondecreasing [OF assms])
    fix x :: real
    have "((\<lambda>x. sinh x - x) has_real_derivative cosh x - 1) (at x)"
      by (auto intro!: derivative_eq_intros)
    then show "\<exists>y. ((\<lambda>x. sinh x - x) has_real_derivative y) (at x) \<and> 0 \<le> y"
      using cosh_real_ge_1 [of x] by (intro exI [of _ "cosh x - 1"]) simp
  qed
  then show ?thesis by simp
qed

lemma cosh_lower:
  fixes w :: real
  shows "1 + w * w / 2 \<le> cosh w"
proof -
  have "cosh w = cosh (2 * (\<bar>w\<bar> / 2))" by simp
  also have "\<dots> = 1 + 2 * (sinh (\<bar>w\<bar> / 2))\<^sup>2"
    unfolding cosh_double using cosh_square_eq [of "\<bar>w\<bar> / 2"] by simp
  finally have c: "cosh w = 1 + 2 * (sinh (\<bar>w\<bar> / 2))\<^sup>2" .
  have "\<bar>w\<bar> / 2 \<le> sinh (\<bar>w\<bar> / 2)" by (rule sinh_ge_self) simp
  then have "(\<bar>w\<bar> / 2)\<^sup>2 \<le> (sinh (\<bar>w\<bar> / 2))\<^sup>2"
    by (rule power_mono) simp
  then show ?thesis unfolding c by (simp add: power2_eq_square)
qed

lemma cosh_half_PI: "cosh (PI_r / 2) \<le> 3"
proof -
  define u where "u = PI_r / 16"
  have u: "0 \<le> u" "u \<le> 1" by (simp_all add: u_def PI_r_def)
  have e8: "exp (PI_r / 2) = exp u ^ 8"
    using exp_of_nat_mult [of 8 u] by (simp add: u_def)
  have u5: "u \<le> 1 / 5" by (simp add: u_def PI_r_def)
  then have "u * u \<le> (1 / 5) * (1 / 5)" using u(1) by (intro mult_mono) simp_all
  then have "1 + u + u\<^sup>2 \<le> 31 / 25" using u5 by (simp add: power2_eq_square)
  moreover have "exp u \<le> 1 + u + u\<^sup>2" using u by (rule exp_bound)
  ultimately have "exp u \<le> 31 / 25" by linarith
  then have "exp u ^ 8 \<le> (31 / 25) ^ 8"
    by (rule power_mono) simp
  also have "\<dots> \<le> 28 / 5" by (simp add: power_divide)
  finally have up: "exp (PI_r / 2) \<le> 28 / 5" unfolding e8 .
  have "1 + PI_r / 2 \<le> exp (PI_r / 2)" by (rule exp_ge_add_one_self)
  then have "5 / 2 \<le> exp (PI_r / 2)" by (simp add: PI_r_def)
  then have "inverse (exp (PI_r / 2)) \<le> inverse (5 / 2)"
    by (rule le_imp_inverse_le) simp
  then have low: "exp (- (PI_r / 2)) \<le> 2 / 5" by (simp add: exp_minus)
  show ?thesis unfolding cosh_field_def using up low by simp
qed

subsection \<open>A call that keeps returning to the inner loop\<close>

lemma y_unit_negative:
  assumes "x < - 4"
  shows "y_at (Fin 1) (Fin 1) (Fin 1) (Fin x) < Fin 0"
proof -
  have x: "x < - (1 / 1000000)" using assms by simp
  have "3 < 1 + sqrt (- x) * sqrt (- x) / 2" using assms by simp
  also have "\<dots> \<le> cosh (sqrt (- x))" by (rule cosh_lower)
  finally have "4 < cosh (sqrt (- x)) + 1" by simp
  then have "sqrt 4 < sqrt (cosh (sqrt (- x)) + 1)" by (rule real_sqrt_less_mono)
  then have "2 < sqrt (cosh (sqrt (- x)) + 1)" by simp
  then show ?thesis unfolding y_at_hyperbolic [OF x] by simp
qed

lemma sqrt_quarter: "sqrt (PI_r * PI_r / 4) = PI_r / 2"
  by (rule real_sqrt_unique) (simp_all add: PI_r_def power2_eq_square)

lemma y_repaired: "y_at (Fin 1) (Fin 1) (Fin 1) z_repaired = y_repaired"
proof -
  have x: "- (PI_r * PI_r / 4) < - (1 / 1000000)" by (simp add: PI_r_def)
  show ?thesis unfolding z_repaired_def y_repaired_def y_at_hyperbolic [OF x]
    by (simp add: sqrt_quarter)
qed

lemma y_repaired_nonneg: "\<not> y_repaired < Fin 0"
proof -
  have "cosh (PI_r / 2) + 1 \<le> 4" using cosh_half_PI by simp
  then have "sqrt (cosh (PI_r / 2) + 1) \<le> sqrt 4" by (rule real_sqrt_le_mono)
  then show ?thesis by (simp add: y_repaired_def)
qed

lemma bracket_halve:
  assumes "l < - 4"
  shows "bracket (Fin 1) (Fin 1) (Fin 1) (Fin l) (Fin 0) (Fin l) (y_at (Fin 1) (Fin 1) (Fin 1) (Fin l)) =
         bracket (Fin 1) (Fin 1) (Fin 1) (Fin (l / 2)) (Fin 0) (Fin (l / 2))
           (y_at (Fin 1) (Fin 1) (Fin 1) (Fin (l / 2)))"
  using y_unit_negative [OF assms] assms by (subst bracket.simps) simp

lemma bracket_repair:
  "bracket (Fin 1) (Fin 1) (Fin 1) z_low (Fin 0) z_low (y_at (Fin 1) (Fin 1) (Fin 1) z_low) =
     Some (z_repaired, y_repaired)"
proof -
  define P where "P = PI_r * PI_r"
  have P: "8 < P" by (simp add: P_def PI_r_def)
  have "bracket (Fin 1) (Fin 1) (Fin 1) z_low (Fin 0) z_low (y_at (Fin 1) (Fin 1) (Fin 1) z_low) =
        bracket (Fin 1) (Fin 1) (Fin 1) (Fin (- (4 * P))) (Fin 0) (Fin (- (4 * P)))
          (y_at (Fin 1) (Fin 1) (Fin 1) (Fin (- (4 * P))))"
    by (simp add: z_low_Fin P_def mult.assoc)
  also have "\<dots> = bracket (Fin 1) (Fin 1) (Fin 1) (Fin (- (2 * P))) (Fin 0) (Fin (- (2 * P)))
          (y_at (Fin 1) (Fin 1) (Fin 1) (Fin (- (2 * P))))"
    using bracket_halve [of "- (4 * P)"] P by simp
  also have "\<dots> = bracket (Fin 1) (Fin 1) (Fin 1) (Fin (- P)) (Fin 0) (Fin (- P))
          (y_at (Fin 1) (Fin 1) (Fin 1) (Fin (- P)))"
    using bracket_halve [of "- (2 * P)"] P by simp
  also have "\<dots> = bracket (Fin 1) (Fin 1) (Fin 1) (Fin (- (P / 2))) (Fin 0) (Fin (- (P / 2)))
          (y_at (Fin 1) (Fin 1) (Fin 1) (Fin (- (P / 2))))"
    using bracket_halve [of "- P"] P by simp
  also have "\<dots> = bracket (Fin 1) (Fin 1) (Fin 1) (Fin (- (P / 4))) (Fin 0) (Fin (- (P / 4)))
          (y_at (Fin 1) (Fin 1) (Fin 1) (Fin (- (P / 4))))"
    using bracket_halve [of "- (P / 2)"] P by simp
  also have "\<dots> = bracket (Fin 1) (Fin 1) (Fin 1) z_repaired (Fin 0) z_repaired y_repaired"
    by (simp add: y_repaired [symmetric] z_repaired_def P_def)
  also have "\<dots> = Some (z_repaired, y_repaired)"
    using y_repaired_nonneg by (subst bracket.simps) simp
  finally show ?thesis .
qed

lemma stumpff_at_z_up:
  "\<exists>c s. stumpff_C z_up = Fin c \<and> 0 < c \<and> stumpff_S z_up = Fin s \<and> 0 < s \<and>
         0 < 4 * PI_r * PI_r * s - 1"
proof -
  define w where "w = 2 * PI_r"
  have w: "0 < w" by (simp add: w_def PI_r_def)
  have x: "4 * PI_r * PI_r = w * w" by (simp add: w_def)
  have big: "\<not> \<bar>w * w\<bar> < 1 / 1000000" "0 < w * w" by (simp_all add: w_def PI_r_def)
  have "pi < w" using pi_less_4 by (simp add: w_def PI_r_def)
  moreover have "w < 2 * pi" using PI_r_less_pi by (simp add: w_def)
  ultimately have s: "sin w < 0" by (rule sin_lt_zero)
  have c1: "cos w \<noteq> 1"
  proof
    assume "cos w = 1"
    then have "sin w = 0" using sin_cos_squared_add [of w] by simp
    with s show False by simp
  qed
  then have c: "0 < 1 - cos w" using cos_le_one [of w] by linarith
  have sw: "sqrt (w * w) = w" using w by simp
  have C: "stumpff_C (Fin (w * w)) = Fin ((1 - cos w) / (w * w))"
    using big w by (simp add: stumpff_C_def sw)
  have S: "stumpff_S (Fin (w * w)) = Fin ((w - sin w) / (w * w * w))"
    using big w powr_three_halves [of w] by (simp add: stumpff_S_def sw)
  have "0 < (1 - cos w) / (w * w)" using c w by simp
  moreover have "0 < (w - sin w) / (w * w * w)" using w s by simp
  moreover have "0 < w * w * ((w - sin w) / (w * w * w)) - 1"
    using w s by (simp add: field_simps)
  ultimately show ?thesis unfolding z_up_Fin x C S by blast
qed

lemma y_at_z_up_nonneg: "\<not> y_at (Fin 1) (Fin 1) (Fin 1) z_up < Fin 0"
proof -
  from stumpff_at_z_up obtain c s where
    C: "stumpff_C z_up = Fin c" and c: "0 < c"
    and S: "stumpff_S z_up = Fin s"
    and e: "0 < 4 * PI_r * PI_r * s - 1" by blast
  have q: "0 < sqrt c" using c by simp
  have "y_at (Fin 1) (Fin 1) (Fin 1) z_up = Fin (2 + (4 * PI_r * PI_r * s - 1) / sqrt c)"
    unfolding y_at_def C S unfolding z_up_Fin using q c by (simp add: not_less)
  moreover have "0 \<le> (4 * PI_r * PI_r * s - 1) / sqrt c"
    using e q by (intro divide_nonneg_pos) simp_all
  ultimately show ?thesis by simp
qed

lemma quarter_norms: "norm_v r1_quarter = Fin 1" "norm_v r2_quarter = Fin 1"
  by (simp_all add: norm_v_def r1_quarter_def r2_quarter_def)

lemma quarter_cos: "cos_dtheta r1_quarter r2_quarter = Fin 0"
  unfolding cos_dtheta_def quarter_norms
  by (simp add: dot_def dmax_def dmin_def r1_quarter_def r2_quarter_def)

lemma quarter_sin: "sin_dtheta r1_quarter r2_quarter True = Fin 1"
  unfolding sin_dtheta_def quarter_norms
  by (simp add: Let_def cross_def norm_v_def r1_quarter_def r2_quarter_def)

lemma quarter_A: "A_of r1_quarter r2_quarter True = Fin 1"
  by (simp add: A_of_def quarter_norms quarter_cos quarter_sin)

lemma quarter_init: "initial_state (dtheta r1_quarter r2_quarter True) =
    \<lparr> cur_z = z_up, cur_y = None, cur_F = None, iteration = 0 \<rparr>"
proof -
  have "dtheta r1_quarter r2_quarter True = Fin (pi / 2)"
    by (simp add: dtheta_def quarter_sin quarter_cos atan2r_def Let_def)
  moreover have "\<not> PI_r < pi / 2" using pi_half_less_two by (simp add: PI_r_def)
  ultimately show ?thesis
    by (simp add: initial_state_def z_init_def z_up_def PI_def)
qed

lemma pass_newton_NaN:
  assumes "\<not> y_at r1_norm r2_norm A (cur_z st) < Fin 0"
  shows "pass r1_norm r2_norm A mu NaN st =
           Some (Continue \<lparr> cur_z = z_low, cur_y = Some (y_at r1_norm r2_norm A (cur_z st)),
                            cur_F = Some NaN, iteration = iteration st + 1 \<rparr>)"
  using assms by (simp add: pass_def Let_def dmax_def dmin_def)

lemma pass_repair:
  assumes "cur_z st = z_low"
  shows "pass (Fin 1) (Fin 1) (Fin 1) mu tof st =
           Some (Continue (st\<lparr> cur_z := z_repaired, cur_y := Some y_repaired,
                               iteration := iteration st + 1 \<rparr>))"
proof -
  have neg: "y_at (Fin 1) (Fin 1) (Fin 1) z_low < Fin 0"
    unfolding z_low_Fin by (rule y_unit_negative) (simp add: PI_r_def)
  have lt: "z_low < Fin 0" by (simp add: z_low_Fin PI_r_def)
  show ?thesis
    using neg lt by (simp add: pass_def Let_def assms bracket_repair)
qed

lemma after_passes_add:
  "after_passes r1_norm r2_norm A mu tof (m + n) st =
     (case after_passes r1_norm r2_norm A mu tof m st of
        None \<Rightarrow> None
      | Some st' \<Rightarrow> after_passes r1_norm r2_norm A mu tof n st')"
proof (induction m arbitrary: st)
  case 0
  show ?case by simp
next
  case (Suc m)
  show ?case
  proof (cases "pass r1_norm r2_norm A mu tof st")
    case None
    then show ?thesis by simp
  next
    case (Some pe)
    then show ?thesis using Suc.IH by (cases pe) simp_all
  qed
qed

lemma newton_passes_add:
  "newton_passes r1_norm r2_norm A mu tof (m + n) st =
     newton_passes r1_norm r2_norm A mu tof m st +
     (case after_passes r1_norm r2_norm A mu tof m st of
        None \<Rightarrow> 0
      | Some st' \<Rightarrow> newton_passes r1_norm r2_norm A mu tof n st')"
proof (induction m arbitrary: st)
  case 0
  show ?case by simp
next
  case (Suc m)
  show ?case
  proof (cases "pass r1_norm r2_norm A mu tof st")
    case None
    then show ?thesis by simp
  next
    case (Some pe)
    then show ?thesis using Suc.IH by (cases pe) simp_all
  qed
qed

lemma newton_passes_le: "newton_passes r1_norm r2_norm A mu tof k st \<le> k"
proof (induction k arbitrary: st)
  case 0
  show ?case by simp
next
  case (Suc k)
  show ?case
  proof (cases "pass r1_norm r2_norm A mu tof st")
    case None
    then show ?thesis by simp
  next
    case (Some pe)
    then show ?thesis using Suc.IH by (cases pe) (auto simp: le_SucI)
  qed
qed

lemma two_passes:
  assumes "cur_z st = z_low"
  shows "after_passes (Fin 1) (Fin 1) (Fin 1) mu NaN 2 st =
           Some \<lparr> cur_z = z_low, cur_y = Some y_repaired, cur_F = Some NaN,
                  iteration = iteration st + 2 \<rparr>"
    and "newton_passes (Fin 1) (Fin 1) (Fin 1) mu NaN 2 st = 1"
proof -
  let ?s1 = "st\<lparr> cur_z := z_repaired, cur_y := Some y_repaired, iteration := iteration st + 1 \<rparr>"
  have p1: "pass (Fin 1) (Fin 1) (Fin 1) mu NaN st = Some (Continue ?s1)"
    by (rule pass_repair [OF assms])
  have nn: "\<not> y_at (Fin 1) (Fin 1) (Fin 1) (cur_z ?s1) < Fin 0"
    using y_repaired_nonneg by (simp add: y_repaired)
  have neg: "y_at (Fin 1) (Fin 1) (Fin 1) (cur_z st) < Fin 0"
    unfolding assms z_low_Fin by (rule y_unit_negative) (simp add: PI_r_def)
  have p2: "pass (Fin 1) (Fin 1) (Fin 1) mu NaN ?s1 =
      Some (Continue \<lparr> cur_z = z_low, cur_y = Some y_repaired, cur_F = Some NaN,
                       iteration = iteration st + 2 \<rparr>)"
    unfolding pass_newton_NaN [OF nn] by (simp add: y_repaired)
  show "after_passes (Fin 1) (Fin 1) (Fin 1) mu NaN 2 st =
           Some \<lparr> cur_z = z_low, cur_y = Some y_repaired, cur_F = Some NaN,
                  iteration = iteration st + 2 \<rparr>"
    by (simp only: numeral_2_eq_2 after_passes.simps p1 p2 option.case pass_end.case)
  have "newton_passes (Fin 1) (Fin 1) (Fin 1) mu NaN (Suc (Suc 0)) st = 0 + (1 + 0)"
    using nn neg
    by (simp only: newton_passes.simps p1 p2 option.case pass_end.case if_True if_False)
  then show "newton_passes (Fin 1) (Fin 1) (Fin 1) mu NaN 2 st = 1"
    by (simp add: numeral_2_eq_2)
qed

lemma even_passes:
  assumes "cur_z st = z_low"
  shows "after_passes (Fin 1) (Fin 1) (Fin 1) mu NaN (2 * Suc j) st =
           Some \<lparr> cur_z = z_low, cur_y = Some y_repaired, cur_F = Some NaN,
                  iteration = iteration st + 2 * Suc j \<rparr> \<and>
         newton_passes (Fin 1) (Fin 1) (Fin 1) mu NaN (2 * Suc j) st = Suc j"
  using assms
proof (induction j arbitrary: st)
  case 0
  then show ?case using two_passes [of st mu] by simp
next
  case (Suc j)
  let ?s2 = "\<lparr> cur_z = z_low, cur_y = Some y_repaired, cur_F = Some NaN,
               iteration = iteration st + 2 \<rparr>"
  have e: "2 * Suc (Suc j) = 2 + 2 * Suc j" by simp
  have z: "cur_z ?s2 = z_low" by simp
  show ?case
    unfolding e after_passes_add newton_passes_add
    using two_passes [OF Suc.prems, of mu] Suc.IH [OF z] by simp
qed

lemma quarter_run:
  "after_passes (Fin 1) (Fin 1) (Fin 1) mu NaN max_iterations
     \<lparr> cur_z = z_up, cur_y = None, cur_F = None, iteration = 0 \<rparr> =
     Some \<lparr> cur_z = z_repaired, cur_y = Some y_repaired, cur_F = Some NaN,
            iteration = max_iterations \<rparr> \<and>
   newton_passes (Fin 1) (Fin 1) (Fin 1) mu NaN max_iterations
     \<lparr> cur_z = z_up, cur_y = None, cur_F = None, iteration = 0 \<rparr> = 500"
proof -
  let ?s0 = "\<lparr> cur_z = z_up, cur_y = None, cur_F = None, iteration = 0 \<rparr>"
  let ?s1 = "\<lparr> cur_z = z_low, cur_y = Some (y_at (Fin 1) (Fin 1) (Fin 1) z_up),
               cur_F = Some NaN, iteration = 1 \<rparr>"
  let ?s2 = "\<lparr> cur_z = z_low, cur_y = Some y_repaired, cur_F = Some NaN, iteration = 999 \<rparr>"
  have m: "max_iterations = Suc (2 * Suc 498 + 1)" by (simp add: max_iterations_def)
  have p0: "pass (Fin 1) (Fin 1) (Fin 1) mu NaN ?s0 = Some (Continue ?s1)"
    using pass_newton_NaN [of "Fin 1" "Fin 1" "Fin 1" ?s0 mu] y_at_z_up_nonneg by simp
  have ev: "after_passes (Fin 1) (Fin 1) (Fin 1) mu NaN (2 * Suc 498) ?s1 = Some ?s2"
    "newton_passes (Fin 1) (Fin 1) (Fin 1) mu NaN (2 * Suc 498) ?s1 = Suc 498"
    using even_passes [of ?s1 mu 498] by simp_all
  have p2: "pass (Fin 1) (Fin 1) (Fin 1) mu NaN ?s2 =
      Some (Continue \<lparr> cur_z = z_repaired, cur_y = Some y_repaired, cur_F = Some NaN,
                       iteration = 1000 \<rparr>)"
    using pass_repair [of ?s2 mu NaN] by simp
  have neg: "y_at (Fin 1) (Fin 1) (Fin 1) z_low < Fin 0"
    unfolding z_low_Fin by (rule y_unit_negative) (simp add: PI_r_def)
  have a: "after_passes (Fin 1) (Fin 1) (Fin 1) mu NaN (2 * Suc 498 + 1) ?s1 =
      Some \<lparr> cur_z = z_repaired, cur_y = Some y_repaired, cur_F = Some NaN, iteration = 1000 \<rparr>"
    unfolding after_passes_add ev by (simp add: p2)
  have n: "newton_passes (Fin 1) (Fin 1) (Fin 1) mu NaN (2 * Suc 498 + 1) ?s1 = 499"
    unfolding newton_passes_add ev using neg by (simp add: p2)
  show ?thesis
    unfolding m after_passes.simps newton_passes.simps p0
    using a n y_at_z_up_nonneg by (simp add: max_iterations_def)
qed

subsection \<open>What counts toward the budget\<close>

text \<open>
  Claim C5 as stated fails at \<open>r1 = (1, 0, 0)\<close>, \<open>r2 = (0, 1, 0)\<close>, \<open>mu = 1\<close>,
  time of flight NaN, prograde: \<^verbatim>\<open>solve\<close> gives up after 1000 passes of which
  only 500 were Newton iterations; the other 500 went through the inner loop.
\<close>

theorem repair_passes_spend_budget:
  "solve (Fin 1) r1_quarter r2_quarter NaN True =
     Some (Inl (NonConvergence (Some NaN) z_repaired (Some y_repaired)
                  r1_quarter r2_quarter NaN True)) \<and>
   newton_passes (Fin 1) (Fin 1) (Fin 1) (Fin 1) NaN max_iterations
     \<lparr> cur_z = z_up, cur_y = None, cur_F = None, iteration = 0 \<rparr> = 500"
proof -
  have "loop (Fin 1) (Fin 1) (Fin 1) (Fin 1) NaN
          \<lparr> cur_z = z_up, cur_y = None, cur_F = None, iteration = 0 \<rparr> =
        Some (Exhausted \<lparr> cur_z = z_repaired, cur_y = Some y_repaired, cur_F = Some NaN,
                          iteration = max_iterations \<rparr>)"
    unfolding loop_exhausted_iff using quarter_run [of "Fin 1"] by simp
  then show ?thesis
    using quarter_run [of "Fin 1"]
    by (simp add: solve_def Let_def quarter_norms quarter_A quarter_init)
qed

subsection \<open>The inner loop on an infinite \<^verbatim>\<open>A\<close>\<close>

lemma stumpff_signs_negative:
  assumes "x < 0"
  shows "\<exists>c s. stumpff_C (Fin x) = Fin c \<and> 0 < c \<and> stumpff_S (Fin x) = Fin s \<and> 0 \<le> s"
proof (cases "\<bar>x\<bar> < 1 / 1000000")
  case True
  have x2: "0 \<le> x * x" by simp
  have x3: "x * x * x \<le> 0" using assms x2 by (simp add: mult_nonneg_nonpos)
  have t: "0 \<le> x * x / 720" "0 \<le> - (x * x * x / 40320)"
    "0 \<le> x * x / 5040" "0 \<le> - (x * x * x / 362880)"
    "0 \<le> - (x / 24)" "0 \<le> - (x / 120)"
    using assms x2 x3 by simp_all
  have "0 < 1 / 2 - x / 24 + x * x / 720 - x * x * x / 40320"
    using t by linarith
  moreover have "0 \<le> 1 / 6 - x / 120 + x * x / 5040 - x * x * x / 362880"
    using t by linarith
  ultimately show ?thesis using True by (simp add: stumpff_C_def stumpff_S_def)
next
  case False
  define w where "w = sqrt (- x)"
  have w: "0 < w" using assms by (simp add: w_def)
  have c: "0 < cosh w - 1"
    using cosh_real_ge_1 [of w] cosh_real_one_iff [of w] w by linarith
  have s: "0 \<le> sinh w - w" using sinh_ge_self [of w] w by simp
  have p: "0 < (- x) powr (3 / 2)" using assms by simp
  have "0 < (cosh w - 1) / (- x)" using c assms by (intro divide_pos_pos) simp_all
  moreover have "0 \<le> (sinh w - w) / (- x) powr (3 / 2)"
    using s p by (intro divide_nonneg_pos)
  ultimately show ?thesis using False assms
    by (simp add: stumpff_C_def stumpff_S_def w_def not_less)
qed

lemma y_at_PInf_negative:
  assumes "x < 0"
  shows "y_at (Fin p) (Fin q) PInf (Fin x) = NInf"
proof -
  from stumpff_signs_negative [OF assms] obtain c s where
    C: "stumpff_C (Fin x) = Fin c" and c: "0 < c"
    and S: "stumpff_S (Fin x) = Fin s" and s: "0 \<le> s" by blast
  have "x * s \<le> 0" using assms s by (simp add: mult_nonpos_nonneg)
  then have e: "x * s - 1 < 0" "x * s - 1 \<noteq> 0" "\<not> 0 < x * s - 1" by simp_all
  have q: "0 \<le> sqrt c" "\<not> c < 0" using c by simp_all
  show ?thesis unfolding y_at_def C S using e q by simp
qed

lemma bracket_PInf_no_result:
  assumes "bracket r1_norm r2_norm A lo hi z y = Some res"
  shows "\<not> (\<exists>p q l. r1_norm = Fin p \<and> r2_norm = Fin q \<and> A = PInf \<and>
              lo = Fin l \<and> l < 0 \<and> hi = Fin 0 \<and> y = NInf)"
proof (rule bracket.raw_induct
    [where P = "\<lambda>r1_norm r2_norm A lo hi z y res.
       \<not> (\<exists>p q l. r1_norm = Fin p \<and> r2_norm = Fin q \<and> A = PInf \<and>
              lo = Fin l \<and> l < 0 \<and> hi = Fin 0 \<and> y = NInf)"], goal_cases)
  case (1 bracket' r1_norm r2_norm A lo hi z y res)
  show ?case
  proof
    assume "\<exists>p q l. r1_norm = Fin p \<and> r2_norm = Fin q \<and> A = PInf \<and>
              lo = Fin l \<and> l < 0 \<and> hi = Fin 0 \<and> y = NInf"
    then obtain p q l where a: "r1_norm = Fin p" "r2_norm = Fin q" "A = PInf"
      "lo = Fin l" "l < 0" "hi = Fin 0" "y = NInf" by blast
    have h: "l / 2 < 0" using a(5) by simp
    have "bracket' (Fin p) (Fin q) PInf (Fin (l / 2)) (Fin 0) (Fin (l / 2)) NInf = Some res"
      using 1(2) h unfolding a by (simp add: y_at_PInf_negative)
    from 1(1) [OF this] h show False by blast
  qed
qed (rule assms)

lemma bracket_PInf:
  "l < 0 \<Longrightarrow> bracket (Fin p) (Fin q) PInf (Fin l) (Fin 0) (Fin l) NInf = None"
  using bracket_PInf_no_result [of "Fin p" "Fin q" PInf "Fin l" "Fin 0" "Fin l" NInf]
  by (cases "bracket (Fin p) (Fin q) PInf (Fin l) (Fin 0) (Fin l) NInf") auto

lemma pass_PInf_z_low:
  assumes "cur_z st = z_low"
  shows "pass (Fin p) (Fin q) PInf mu tof st = None"
proof -
  have l: "- (4 * PI_r * PI_r) < 0" by (simp add: PI_r_def)
  show ?thesis
    using l by (simp add: pass_def Let_def assms z_low_Fin y_at_PInf_negative bracket_PInf)
qed

lemma PInf_minus: "PInf - X = PInf \<or> PInf - X = NaN"
  by (cases X) (simp_all add: minus_dbl_def)

lemma pass_PInf_z_up:
  assumes "cur_z st = z_up"
  shows "\<exists>F. pass (Fin p) (Fin q) PInf mu tof st =
           Some (Continue \<lparr> cur_z = z_low, cur_y = Some PInf, cur_F = Some F,
                            iteration = iteration st + 1 \<rparr>)"
proof -
  from stumpff_at_z_up obtain c s where
    C: "stumpff_C z_up = Fin c" and c: "0 < c"
    and S: "stumpff_S z_up = Fin s" and s: "0 < s"
    and e: "0 < 4 * PI_r * PI_r * s - 1" by blast
  have q: "\<not> c < 0" "sqrt c \<noteq> 0" "0 \<le> sqrt c" "s \<noteq> 0" "c \<noteq> 0" "0 \<le> c" "4 * PI_r * PI_r * s - 1 \<noteq> 0"
    using c s e by simp_all
  have y: "y_at (Fin p) (Fin q) PInf z_up = PInf"
    unfolding y_at_def C S unfolding z_up_Fin using q e by simp
  define F where "F = PInf - dsqrt mu * tof"
  have F: "F = PInf \<or> F = NaN" unfolding F_def by (rule PInf_minus)
  have Fe: "PInf * Fin s + PInf * dsqrt PInf - dsqrt mu * tof = F"
    using s by (simp add: F_def)
  have d: "(PInf * Fin c + PInf * Fin s * dsqrt PInf) / (Fin 2 * Fin c) = PInf"
    using c s by simp
  have nt: "\<not> \<bar>F\<bar> < tolerance" using F by (auto simp: tolerance_def)
  have dl: "Fin (1 / 2) * F / PInf = NaN" using F by auto
  have "pass (Fin p) (Fin q) PInf mu tof st =
           Some (Continue \<lparr> cur_z = z_low, cur_y = Some PInf, cur_F = Some F,
                            iteration = iteration st + 1 \<rparr>)"
    unfolding pass_def Let_def assms y C S Fe d
    using nt by (simp add: dl dmax_def dmin_def)
  then show ?thesis ..
qed

lemma loop_PInf_z_low:
  assumes "cur_z st = z_low" "iteration st < max_iterations"
  shows "loop (Fin p) (Fin q) PInf mu tof st = None"
  using assms by (subst loop.simps) (simp add: pass_PInf_z_low)

text \<open>
  Claim C6 (the loop on an infinite \<^verbatim>\<open>A\<close>).  The inner loop has no bound of
  its own.  When \<^verbatim>\<open>A\<close> is \<open>+\<infinity>\<close>, \<^verbatim>\<open>y\<close> is \<open>-\<infinity>\<close> at every negative \<^verbatim>\<open>z\<close>, so
  the inner loop entered at \<^verbatim>\<open>z_low\<close> halves \<^verbatim>\<open>z\<close> for ever: from either initial
  \<^verbatim>\<open>z\<close> the iteration does not return, whatever \<^verbatim>\<open>mu\<close> and the time of
  flight.  (In binary64 \<^verbatim>\<open>A\<close> is \<open>+\<infinity>\<close> for \<open>r1 = (7000, 0, 0)\<close>,
  \<open>r2 = (7000, 7e-6, 0)\<close>: the cosine rounds to 1 and the sine is \<open>10\<^sup>-\<^sup>9\<close>.)
\<close>

theorem loop_hangs_on_infinite_A:
  "loop (Fin 7000) (Fin 7000) PInf mu tof (initial_state dth) = None"
proof (cases "PI < dth")
  case True
  then have "cur_z (initial_state dth) = z_low"
    by (simp add: initial_state_def z_init_def z_low_def)
  then show ?thesis
    by (rule loop_PInf_z_low) (simp add: initial_state_def max_iterations_def)
next
  case False
  then have "cur_z (initial_state dth) = z_up"
    by (simp add: initial_state_def z_init_def z_up_def)
  from pass_PInf_z_up [OF this, of 7000 7000 mu tof] obtain F where
    p1: "pass (Fin 7000) (Fin 7000) PInf mu tof (initial_state dth) =
      Some (Continue \<lparr> cur_z = z_low, cur_y = Some PInf, cur_F = Some F,
                       iteration = iteration (initial_state dth) + 1 \<rparr>)" by blast
  have it: "iteration (initial_state dth) = 0" by (simp add: initial_state_def)
  show ?thesis
    by (subst loop.simps) (simp add: p1 it loop_PInf_z_low max_iterations_def)
qed

section \<open>Properties over an arbitrary arithmetic\<close>

subsection \<open>The exact arithmetic as an instance\<close>

lemma exact_fp_simps:
  "lit exact_fp = Fin" "fneg exact_fp = uminus" "fadd exact_fp = (+)" "fsub exact_fp = (-)"
  "fmul exact_fp = (*)" "fdiv exact_fp = (/)" "fabs exact_fp = abs" "flt exact_fp = (<)"
  "fle exact_fp = (\<le>)" "feq exact_fp = deq" "fsqrt exact_fp = dsqrt" "fcos exact_fp = dcos"
  "fsin exact_fp = dsin" "fcosh exact_fp = dcosh" "fsinh exact_fp = dsinh"
  "fpow15 exact_fp = dpow15" "fatan2 exact_fp = datan2"
  by (simp_all add: exact_fp_def)

lemma norm_exact: "norm_fp exact_fp = norm_v"
  by (rule ext) (simp add: norm_fp_def norm_v_def exact_fp_simps)

lemma cross_exact: "cross_fp exact_fp = cross"
  by (intro ext) (simp add: cross_fp_def cross_def exact_fp_simps)

lemma dot_exact: "dot_fp exact_fp = dot"
  by (intro ext) (simp add: dot_fp_def dot_def exact_fp_simps)

lemma PI_exact: "PI_fp exact_fp = PI"
  by (simp add: PI_fp_def PI_def PI_r_def exact_fp_simps)

lemma stumpff_C_exact: "stumpff_C_fp exact_fp = stumpff_C"
  by (rule ext) (simp add: stumpff_C_fp_def stumpff_C_def exact_fp_simps)

lemma stumpff_S_exact: "stumpff_S_fp exact_fp = stumpff_S"
  by (rule ext) (simp add: stumpff_S_fp_def stumpff_S_def exact_fp_simps)

lemma y_exact: "y_fp exact_fp = y_at"
  by (intro ext) (simp add: y_fp_def y_at_def exact_fp_simps stumpff_C_exact stumpff_S_exact)

lemma cos_dtheta_exact: "cos_dtheta_fp exact_fp = cos_dtheta"
  by (intro ext)
     (simp add: cos_dtheta_fp_def cos_dtheta_def max_fp_def min_fp_def dmax_def dmin_def
        exact_fp_simps norm_exact dot_exact)

lemma sin_dtheta_exact: "sin_dtheta_fp exact_fp = sin_dtheta"
  by (intro ext)
     (simp add: sin_dtheta_fp_def sin_dtheta_def exact_fp_simps norm_exact cross_exact Let_def)

lemma dtheta_exact: "dtheta_fp exact_fp = dtheta"
  by (intro ext)
     (simp add: dtheta_fp_def dtheta_def exact_fp_simps sin_dtheta_exact cos_dtheta_exact
        PI_exact Let_def)

lemma A_exact: "A_fp exact_fp = A_of"
  by (intro ext)
     (simp add: A_fp_def A_of_def exact_fp_simps sin_dtheta_exact cos_dtheta_exact norm_exact)

lemma z_low_exact: "z_low_fp exact_fp = z_low"
  by (simp add: z_low_fp_def z_low_def exact_fp_simps PI_exact)

lemma z_up_exact: "z_up_fp exact_fp = z_up"
  by (simp add: z_up_fp_def z_up_def exact_fp_simps PI_exact)

lemma z_init_exact: "z_init_fp exact_fp = z_init"
  by (intro ext) (simp add: z_init_fp_def z_init_def exact_fp_simps PI_exact z_low_def z_up_def)

lemma residual_exact: "residual_fp exact_fp = residual"
  by (intro ext)
     (simp add: residual_fp_def residual_def exact_fp_simps y_exact stumpff_S_exact Let_def)

lemma velocities_exact: "velocities_fp exact_fp = velocities"
  by (intro ext) (simp add: velocities_fp_def velocities_def exact_fp_simps norm_exact Let_def)

subsection \<open>The loops over an arbitrary arithmetic\<close>

lemma bracket_fp_result:
  assumes "bracket_fp a r1_norm r2_norm A lo hi z y = Some res"
  shows "\<not> flt a (snd res) (lit a 0) \<and>
         (flt a y (lit a 0) \<longrightarrow> snd res = y_fp a r1_norm r2_norm A (fst res)) \<and>
         (\<not> flt a y (lit a 0) \<longrightarrow> res = (z, y))"
proof (rule bracket_fp.raw_induct
    [where P = "\<lambda>a r1_norm r2_norm A lo hi z y res.
       \<not> flt a (snd res) (lit a 0) \<and>
       (flt a y (lit a 0) \<longrightarrow> snd res = y_fp a r1_norm r2_norm A (fst res)) \<and>
       (\<not> flt a y (lit a 0) \<longrightarrow> res = (z, y))"],
    goal_cases)
  case (1 bracket' a r1_norm r2_norm A lo hi z y res)
  show ?case
  proof (cases "flt a y (lit a 0)")
    case False
    then have "res = (z, y)" using 1(2) by simp
    then show ?thesis using False by simp
  next
    case True
    let ?m = "mid_fp a lo hi"
    have "bracket' a r1_norm r2_norm A
            (if flt a ?m (lit a 0) then ?m else lo)
            (if flt a ?m (lit a 0) then hi else ?m) ?m
            (y_fp a r1_norm r2_norm A ?m) = Some res"
      using 1(2) True by simp
    from 1(1) [OF this] show ?thesis
      using True by (cases "flt a (y_fp a r1_norm r2_norm A ?m) (lit a 0)") auto
  qed
qed (rule assms)

lemma pass_fp_iteration:
  "pass_fp a r1_norm r2_norm A mu tof st = Some (Continue_fp st') \<Longrightarrow>
   loc_iteration st' = loc_iteration st + 1"
  by (auto simp: pass_fp_def Let_def split: if_splits option.splits prod.splits)

lemma pass_fp_break_iff:
  "pass_fp a r1_norm r2_norm A mu tof st = Some (Break_fp y) \<longleftrightarrow>
     y = y_fp a r1_norm r2_norm A (loc_z st) \<and> \<not> flt a y (lit a 0) \<and>
     flt a (fabs a (residual_fp a r1_norm r2_norm A mu tof (loc_z st))) (lit a (1 / 100000000))"
  by (auto simp: pass_fp_def residual_fp_def Let_def split: option.splits prod.splits)

lemma pass_fp_repair:
  assumes "pass_fp a r1_norm r2_norm A mu tof st = Some (Continue_fp st')"
    and "flt a (y_fp a r1_norm r2_norm A (loc_z st)) (lit a 0)"
  shows "loc_F st' = loc_F st"
    and "loc_y st' = y_fp a r1_norm r2_norm A (loc_z st')"
    and "\<not> flt a (y_fp a r1_norm r2_norm A (loc_z st')) (lit a 0)"
proof -
  let ?z = "loc_z st"
  from assms obtain res where
    b: "bracket_fp a r1_norm r2_norm A ?z
          (if flt a ?z (lit a 0) then lit a 0 else fmul a ?z (lit a 2)) ?z
          (y_fp a r1_norm r2_norm A ?z) = Some res"
    and st': "st' = st\<lparr> loc_z := fst res, loc_y := snd res,
                         loc_iteration := loc_iteration st + 1 \<rparr>"
    unfolding pass_fp_def Let_def by (auto split: option.splits)
  from bracket_fp_result [OF b] assms(2)
  have r: "\<not> flt a (snd res) (lit a 0)" "snd res = y_fp a r1_norm r2_norm A (fst res)"
    by blast+
  from r(1) have "\<not> flt a (y_fp a r1_norm r2_norm A (fst res)) (lit a 0)"
    unfolding r(2) [symmetric] .
  with r show "loc_F st' = loc_F st"
    and "loc_y st' = y_fp a r1_norm r2_norm A (loc_z st')"
    and "\<not> flt a (y_fp a r1_norm r2_norm A (loc_z st')) (lit a 0)"
    by (simp_all add: st')
qed

lemma pass_fp_newton:
  assumes "pass_fp a r1_norm r2_norm A mu tof st = Some (Continue_fp st')"
    and "\<not> flt a (y_fp a r1_norm r2_norm A (loc_z st)) (lit a 0)"
  shows "loc_F st' = residual_fp a r1_norm r2_norm A mu tof (loc_z st)"
    and "loc_y st' = y_fp a r1_norm r2_norm A (loc_z st)"
  using assms by (auto simp: pass_fp_def residual_fp_def Let_def split: if_splits)

lemma after_fp_iteration:
  "after_fp a r1_norm r2_norm A mu tof k st = Some st' \<Longrightarrow>
   loc_iteration st' = loc_iteration st + k"
proof (induction k arbitrary: st)
  case 0
  then show ?case by simp
next
  case (Suc k)
  then show ?case
    by (auto split: option.splits step.splits dest!: pass_fp_iteration)
qed

lemma after_fp_Suc:
  "after_fp a r1_norm r2_norm A mu tof (Suc k) st = Some st'' \<longleftrightarrow>
     (\<exists>st'. after_fp a r1_norm r2_norm A mu tof k st = Some st' \<and>
            pass_fp a r1_norm r2_norm A mu tof st' = Some (Continue_fp st''))"
proof (induction k arbitrary: st)
  case 0
  show ?case by (auto split: option.splits step.splits)
next
  case (Suc k)
  show ?case
  proof (cases "pass_fp a r1_norm r2_norm A mu tof st")
    case None
    then show ?thesis by simp
  next
    case (Some pe)
    then show ?thesis using Suc.IH by (cases pe) simp_all
  qed
qed

lemma loop_fp_converged_iff:
  "loop_fp a r1_norm r2_norm A mu tof st = Some (Converged_fp y) \<longleftrightarrow>
     (\<exists>k st'. loc_iteration st + k < 1000 \<and>
        after_fp a r1_norm r2_norm A mu tof k st = Some st' \<and>
        pass_fp a r1_norm r2_norm A mu tof st' = Some (Break_fp y))"
proof (induction a r1_norm r2_norm A mu tof st rule: loop_fp.induct)
  case (1 a r1_norm r2_norm A mu tof st)
  let ?R = "\<lambda>st. \<exists>k st'. loc_iteration st + k < 1000 \<and>
        after_fp a r1_norm r2_norm A mu tof k st = Some st' \<and>
        pass_fp a r1_norm r2_norm A mu tof st' = Some (Break_fp y)"
  show ?case
  proof (cases "loc_iteration st < 1000")
    case False
    then show ?thesis by (subst loop_fp.simps) simp
  next
    case True
    have split: "?R st \<longleftrightarrow> pass_fp a r1_norm r2_norm A mu tof st = Some (Break_fp y) \<or>
        (\<exists>k st'. loc_iteration st + Suc k < 1000 \<and>
           after_fp a r1_norm r2_norm A mu tof (Suc k) st = Some st' \<and>
           pass_fp a r1_norm r2_norm A mu tof st' = Some (Break_fp y))"
      (is "_ \<longleftrightarrow> ?L")
    proof
      assume "?R st"
      then obtain k st' where k: "loc_iteration st + k < 1000"
        "after_fp a r1_norm r2_norm A mu tof k st = Some st'"
        "pass_fp a r1_norm r2_norm A mu tof st' = Some (Break_fp y)" by blast
      show ?L
      proof (cases k)
        case 0
        with k show ?thesis by simp
      next
        case (Suc k')
        with k show ?thesis by blast
      qed
    next
      assume ?L
      then show "?R st"
      proof
        assume "pass_fp a r1_norm r2_norm A mu tof st = Some (Break_fp y)"
        then show ?thesis using True
          by (intro exI [of _ 0] exI [of _ st]) simp
      next
        assume "\<exists>k st'. loc_iteration st + Suc k < 1000 \<and>
           after_fp a r1_norm r2_norm A mu tof (Suc k) st = Some st' \<and>
           pass_fp a r1_norm r2_norm A mu tof st' = Some (Break_fp y)"
        then show ?thesis by blast
      qed
    qed
    show ?thesis
    proof (cases "pass_fp a r1_norm r2_norm A mu tof st")
      case None
      then show ?thesis unfolding split using True by (subst loop_fp.simps) simp
    next
      case (Some pe)
      show ?thesis
      proof (cases pe)
        case (Continue_fp st1)
        have it: "loc_iteration st1 = loc_iteration st + 1"
          using Some Continue_fp by (auto dest: pass_fp_iteration)
        have "loop_fp a r1_norm r2_norm A mu tof st = loop_fp a r1_norm r2_norm A mu tof st1"
          using True Some Continue_fp by (subst loop_fp.simps) simp
        also have "\<dots> = Some (Converged_fp y) \<longleftrightarrow> ?R st1"
          using "1.IH" [OF True Some Continue_fp] .
        also have "?R st1 \<longleftrightarrow> ?R st"
          unfolding split [of ] using Some Continue_fp it by simp
        finally show ?thesis .
      next
        case (Break_fp y')
        then show ?thesis unfolding split using True Some by (subst loop_fp.simps) auto
      next
        case Throw_fp
        then show ?thesis unfolding split using True Some by (subst loop_fp.simps) simp
      qed
    qed
  qed
qed

lemma loop_fp_exhausted_iff:
  "loop_fp a r1_norm r2_norm A mu tof st = Some (Exhausted_fp st') \<longleftrightarrow>
     after_fp a r1_norm r2_norm A mu tof (1000 - loc_iteration st) st = Some st'"
proof (induction a r1_norm r2_norm A mu tof st rule: loop_fp.induct)
  case (1 a r1_norm r2_norm A mu tof st)
  show ?case
  proof (cases "loc_iteration st < 1000")
    case False
    then show ?thesis by (subst loop_fp.simps) auto
  next
    case True
    then obtain n where n: "1000 - loc_iteration st = Suc n"
      by (cases "1000 - loc_iteration st") simp_all
    show ?thesis
    proof (cases "pass_fp a r1_norm r2_norm A mu tof st")
      case None
      then show ?thesis unfolding n using True by (subst loop_fp.simps) simp
    next
      case (Some pe)
      show ?thesis
      proof (cases pe)
        case (Continue_fp st1)
        have "loc_iteration st1 = loc_iteration st + 1"
          using Some Continue_fp by (auto dest: pass_fp_iteration)
        then have n1: "1000 - loc_iteration st1 = n" using n by simp
        have "loop_fp a r1_norm r2_norm A mu tof st = loop_fp a r1_norm r2_norm A mu tof st1"
          using True Some Continue_fp by (subst loop_fp.simps) simp
        then show ?thesis
          using "1.IH" [OF True Some Continue_fp] unfolding n n1 using Some Continue_fp by simp
      next
        case (Break_fp y)
        then show ?thesis unfolding n using True Some by (subst loop_fp.simps) simp
      next
        case Throw_fp
        then show ?thesis unfolding n using True Some by (subst loop_fp.simps) simp
      qed
    qed
  qed
qed

subsection \<open>The two translations agree on the exact arithmetic\<close>

lemma mid_exact: "mid_fp exact_fp = mid"
  by (intro ext) (simp add: mid_fp_def mid_def exact_fp_simps)

lemma bracket_exact_1:
  assumes "bracket r1_norm r2_norm A lo hi z y = Some res"
  shows "bracket_fp exact_fp r1_norm r2_norm A lo hi z y = Some res"
proof (rule bracket.raw_induct
    [where P = "\<lambda>r1_norm r2_norm A lo hi z y res.
       bracket_fp exact_fp r1_norm r2_norm A lo hi z y = Some res"], goal_cases)
  case (1 bracket' r1_norm r2_norm A lo hi z y res)
  show ?case
  proof (cases "y < Fin 0")
    case False
    then show ?thesis using 1(2) by (subst bracket_fp.simps) (simp add: exact_fp_simps)
  next
    case True
    have "bracket' r1_norm r2_norm A
            (if mid lo hi < Fin 0 then mid lo hi else lo)
            (if mid lo hi < Fin 0 then hi else mid lo hi) (mid lo hi)
            (y_at r1_norm r2_norm A (mid lo hi)) = Some res"
      using 1(2) True by simp
    from 1(1) [OF this] show ?thesis
      using True
        by (subst bracket_fp.simps) (auto simp: exact_fp_simps mid_exact y_exact split: if_splits)
  qed
qed (rule assms)

lemma bracket_exact_2:
  assumes "bracket_fp a r1_norm r2_norm A lo hi z y = Some res"
  shows "a = exact_fp \<longrightarrow> bracket r1_norm r2_norm A lo hi z y = Some res"
proof (rule bracket_fp.raw_induct
    [where P = "\<lambda>a r1_norm r2_norm A lo hi z y res.
       a = exact_fp \<longrightarrow> bracket r1_norm r2_norm A lo hi z y = Some res"], goal_cases)
  case (1 bracket' a r1_norm r2_norm A lo hi z y res)
  show ?case
  proof
    assume a: "a = exact_fp"
    show "bracket r1_norm r2_norm A lo hi z y = Some res"
    proof (cases "y < Fin 0")
      case False
      then show ?thesis using 1(2) unfolding a by (subst bracket.simps) (simp add: exact_fp_simps)
    next
      case True
      have "bracket' a r1_norm r2_norm A
              (if mid lo hi < Fin 0 then mid lo hi else lo)
              (if mid lo hi < Fin 0 then hi else mid lo hi) (mid lo hi)
              (y_at r1_norm r2_norm A (mid lo hi)) = Some res"
        using 1(2) True unfolding a
          by (auto simp: exact_fp_simps mid_exact y_exact split: if_splits)
      from 1(1) [OF this] a show ?thesis
        using True by (subst bracket.simps) simp
    qed
  qed
qed (rule assms)

lemma bracket_exact:
  "bracket_fp exact_fp r1_norm r2_norm A lo hi z y = bracket r1_norm r2_norm A lo hi z y"
proof (cases "bracket r1_norm r2_norm A lo hi z y")
  case (Some res)
  then show ?thesis by (simp add: bracket_exact_1)
next
  case None
  show ?thesis
  proof (cases "bracket_fp exact_fp r1_norm r2_norm A lo hi z y")
    case None
    then show ?thesis using \<open>bracket r1_norm r2_norm A lo hi z y = None\<close> by simp
  next
    case (Some res)
    from bracket_exact_2 [OF this] None show ?thesis by simp
  qed
qed

lemma pass_exact:
  "pass_fp exact_fp r1_norm r2_norm A mu tof (locals_of y0 F0 st) =
     map_option (step_of y0 F0) (pass r1_norm r2_norm A mu tof st)"
  unfolding pass_fp_def pass_def Let_def
  by (simp add: exact_fp_simps y_exact stumpff_C_exact stumpff_S_exact bracket_exact
        z_low_exact z_up_exact max_fp_def min_fp_def dmax_def dmin_def tolerance_def
        locals_of_def split: option.splits prod.splits)

lemma after_exact:
  "after_fp exact_fp r1_norm r2_norm A mu tof k (locals_of y0 F0 st) =
     map_option (locals_of y0 F0) (after_passes r1_norm r2_norm A mu tof k st)"
proof (induction k arbitrary: st)
  case 0
  show ?case by simp
next
  case (Suc k)
  show ?case
  proof (cases "pass r1_norm r2_norm A mu tof st")
    case None
    then show ?thesis by (simp add: pass_exact)
  next
    case (Some pe)
    then show ?thesis using Suc.IH by (cases pe) (simp_all add: pass_exact)
  qed
qed

lemma locals_exact:
  "locals_fp exact_fp y0 F0 dth = locals_of y0 F0 (initial_state dth)"
  by (simp add: locals_fp_def locals_of_def initial_state_def z_init_exact)

subsection \<open>The variables without an initial value\<close>

lemma pass_fp_same_run:
  assumes "same_run a r1_norm r2_norm A st st'"
  shows "(case pass_fp a r1_norm r2_norm A mu tof st of
            None \<Rightarrow> pass_fp a r1_norm r2_norm A mu tof st' = None
          | Some (Continue_fp s) \<Rightarrow>
              (\<exists>s'. pass_fp a r1_norm r2_norm A mu tof st' = Some (Continue_fp s') \<and>
                    same_run a r1_norm r2_norm A s s')
          | Some r \<Rightarrow> pass_fp a r1_norm r2_norm A mu tof st' = Some r)"
proof (cases "flt a (y_fp a r1_norm r2_norm A (loc_z st)) (lit a 0)")
  case False
  have z: "loc_z st' = loc_z st" and i: "loc_iteration st' = loc_iteration st"
    using assms by (simp_all add: same_run_def)
  have "pass_fp a r1_norm r2_norm A mu tof st' = pass_fp a r1_norm r2_norm A mu tof st"
    using False unfolding pass_fp_def Let_def z i by simp
  moreover have "same_run a r1_norm r2_norm A s s"
    if "pass_fp a r1_norm r2_norm A mu tof st = Some (Continue_fp s)" for s
    using pass_fp_iteration [OF that] by (simp add: same_run_def)
  ultimately show ?thesis
    by (auto split: option.splits step.splits)
next
  case True
  have z: "loc_z st' = loc_z st" and i: "loc_iteration st' = loc_iteration st"
    using assms by (simp_all add: same_run_def)
  let ?b = "bracket_fp a r1_norm r2_norm A (loc_z st)
          (if flt a (loc_z st) (lit a 0) then lit a 0 else fmul a (loc_z st) (lit a 2)) (loc_z st)
          (y_fp a r1_norm r2_norm A (loc_z st))"
  show ?thesis
  proof (cases ?b)
    case None
    then show ?thesis using True unfolding pass_fp_def Let_def z i by simp
  next
    case (Some res)
    have p: "pass_fp a r1_norm r2_norm A mu tof st =
        Some (Continue_fp (st\<lparr> loc_z := fst res, loc_y := snd res,
                                loc_iteration := loc_iteration st + 1 \<rparr>))"
      using True Some unfolding pass_fp_def Let_def by (simp add: case_prod_beta)
    have p': "pass_fp a r1_norm r2_norm A mu tof st' =
        Some (Continue_fp (st'\<lparr> loc_z := fst res, loc_y := snd res,
                                 loc_iteration := loc_iteration st + 1 \<rparr>))"
      using True Some unfolding pass_fp_def Let_def z i by (simp add: case_prod_beta)
    from pass_fp_repair(3) [OF p True]
    have n: "\<not> flt a (y_fp a r1_norm r2_norm A (fst res)) (lit a 0)" by simp
    have "same_run a r1_norm r2_norm A
            (st\<lparr> loc_z := fst res, loc_y := snd res, loc_iteration := loc_iteration st + 1 \<rparr>)
            (st'\<lparr> loc_z := fst res, loc_y := snd res, loc_iteration := loc_iteration st + 1 \<rparr>)"
      using assms True n unfolding same_run_def by auto
    then show ?thesis unfolding p p' by simp
  qed
qed

lemma loop_fp_same_run:
  "same_run a r1_norm r2_norm A st st' \<Longrightarrow>
   loop_fp a r1_norm r2_norm A mu tof st = loop_fp a r1_norm r2_norm A mu tof st'"
proof (induction a r1_norm r2_norm A mu tof st arbitrary: st' rule: loop_fp.induct)
  case (1 a r1_norm r2_norm A mu tof st)
  have i: "loc_iteration st' = loc_iteration st"
    using "1.prems" by (simp add: same_run_def)
  show ?case
  proof (cases "loc_iteration st < 1000")
    case False
    then have "loc_y st = loc_y st'" "loc_F st = loc_F st'" "loc_z st = loc_z st'"
      using "1.prems" by (auto simp: same_run_def)
    then have "st = st'" using i by simp
    then show ?thesis by simp
  next
    case True
    show ?thesis
    proof (cases "pass_fp a r1_norm r2_norm A mu tof st")
      case None
      with pass_fp_same_run [OF "1.prems", of mu tof]
      have "pass_fp a r1_norm r2_norm A mu tof st' = None" by simp
      with None True i show ?thesis
        by (simp add: loop_fp.simps [of a r1_norm r2_norm A mu tof st]
                  loop_fp.simps [of a r1_norm r2_norm A mu tof st'])
    next
      case (Some pe)
      show ?thesis
      proof (cases pe)
        case (Continue_fp s)
        with Some pass_fp_same_run [OF "1.prems", of mu tof] obtain s' where
          p': "pass_fp a r1_norm r2_norm A mu tof st' = Some (Continue_fp s')"
          and r: "same_run a r1_norm r2_norm A s s'" by auto
        have "loop_fp a r1_norm r2_norm A mu tof st = loop_fp a r1_norm r2_norm A mu tof s"
          using True Some Continue_fp by (subst loop_fp.simps) simp
        also have "\<dots> = loop_fp a r1_norm r2_norm A mu tof s'"
          by (rule "1.IH" [OF True Some Continue_fp r])
        also have "\<dots> = loop_fp a r1_norm r2_norm A mu tof st'"
          using True i p' by (simp add: loop_fp.simps [of a r1_norm r2_norm A mu tof st'])
        finally show ?thesis .
      next
        case (Break_fp y)
        with Some pass_fp_same_run [OF "1.prems", of mu tof]
        have "pass_fp a r1_norm r2_norm A mu tof st' = Some (Break_fp y)" by simp
        with Some Break_fp True i show ?thesis
          by (simp add: loop_fp.simps [of a r1_norm r2_norm A mu tof st]
                  loop_fp.simps [of a r1_norm r2_norm A mu tof st'])
      next
        case Throw_fp
        with Some pass_fp_same_run [OF "1.prems", of mu tof]
        have "pass_fp a r1_norm r2_norm A mu tof st' = Some Throw_fp" by simp
        with Some Throw_fp True i show ?thesis
          by (simp add: loop_fp.simps [of a r1_norm r2_norm A mu tof st]
                  loop_fp.simps [of a r1_norm r2_norm A mu tof st'])
      qed
    qed
  qed
qed

text \<open>
  Claim C9.  \<^verbatim>\<open>solve\<close> reads its arguments, the member \<^verbatim>\<open>mu\<close> and its own
  locals, of which \<^verbatim>\<open>y\<close> and \<^verbatim>\<open>F\<close> are declared without an initial value and
  are read after the loop.  Whatever these two hold at their declaration, and
  whatever the arithmetic, the outcome of the call is the same: the same pair
  of velocities, the same error with the same values in it, or no return in
  both cases.
\<close>

theorem solve_fp_deterministic:
  "solve_fp a y0 F0 mu r1 r2 tof is_prograde = solve_fp a y0' F0' mu r1 r2 tof is_prograde"
proof -
  have "same_run a (norm_fp a r1) (norm_fp a r2) (A_fp a r1 r2 is_prograde)
          (locals_fp a y0 F0 (dtheta_fp a r1 r2 is_prograde))
          (locals_fp a y0' F0' (dtheta_fp a r1 r2 is_prograde))"
    by (simp add: same_run_def locals_fp_def)
  from loop_fp_same_run [OF this, of mu tof] show ?thesis
    by (simp add: solve_fp_def Let_def)
qed

subsection \<open>Convergence and the error that reports none\<close>

lemma F_assigned_step:
  assumes a: "after_fp a r1_norm r2_norm A mu tof k st0 = Some s1"
    and p: "pass_fp a r1_norm r2_norm A mu tof s1 = Some (Continue_fp st)"
    and i: "F_assigned a r1_norm r2_norm A mu tof st0 k s1 \<or>
            \<not> flt a (y_fp a r1_norm r2_norm A (loc_z s1)) (lit a 0)"
  shows "F_assigned a r1_norm r2_norm A mu tof st0 (Suc k) st"
proof (cases "flt a (y_fp a r1_norm r2_norm A (loc_z s1)) (lit a 0)")
  case True
  with i have "F_assigned a r1_norm r2_norm A mu tof st0 k s1" by blast
  then obtain j s where "j < k" "after_fp a r1_norm r2_norm A mu tof j st0 = Some s"
    "\<not> flt a (y_fp a r1_norm r2_norm A (loc_z s)) (lit a 0)"
    "loc_F s1 = residual_fp a r1_norm r2_norm A mu tof (loc_z s)"
    unfolding F_assigned_def by blast
  moreover have "loc_F st = loc_F s1" by (rule pass_fp_repair(1) [OF p True])
  ultimately show ?thesis unfolding F_assigned_def
    by (intro exI [of _ j] exI [of _ s]) simp
next
  case False
  from pass_fp_newton(1) [OF p False] a False show ?thesis
    unfolding F_assigned_def by (intro exI [of _ k] exI [of _ s1]) simp
qed

lemma after_fp_F_assigned:
  assumes "after_fp a r1_norm r2_norm A mu tof (Suc (Suc k)) st0 = Some st"
  shows "F_assigned a r1_norm r2_norm A mu tof st0 (Suc (Suc k)) st"
proof -
  from assms obtain s1 s2 where
    a1: "after_fp a r1_norm r2_norm A mu tof k st0 = Some s1"
    and p1: "pass_fp a r1_norm r2_norm A mu tof s1 = Some (Continue_fp s2)"
    and p2: "pass_fp a r1_norm r2_norm A mu tof s2 = Some (Continue_fp st)"
    unfolding after_fp_Suc by blast
  have a2: "after_fp a r1_norm r2_norm A mu tof (Suc k) st0 = Some s2"
    unfolding after_fp_Suc using a1 p1 by blast
  have "F_assigned a r1_norm r2_norm A mu tof st0 (Suc k) s2 \<or>
        \<not> flt a (y_fp a r1_norm r2_norm A (loc_z s2)) (lit a 0)"
  proof (cases "flt a (y_fp a r1_norm r2_norm A (loc_z s1)) (lit a 0)")
    case True
    from pass_fp_repair(3) [OF p1 True] show ?thesis by blast
  next
    case False
    then show ?thesis using F_assigned_step [OF a1 p1] by blast
  qed
  from F_assigned_step [OF a2 p2 this] show ?thesis .
qed

text \<open>
  Claim C8.  Whatever the arithmetic, for a call that passes the two checks
  before the loop: \<^verbatim>\<open>solve\<close> returns velocities exactly when, within the first
  1000 passes of the loop, a pass finds \<^verbatim>\<open>y\<close> not negative and
  \<^verbatim>\<open>abs(F) < 1e-8\<close>; it throws the error that reports no convergence exactly
  when 1000 passes have all ended without that, and then the error carries
  the values that \<^verbatim>\<open>F\<close>, \<^verbatim>\<open>z\<close> and \<^verbatim>\<open>y\<close> have after the last pass and the
  arguments \<^verbatim>\<open>r1\<close>, \<^verbatim>\<open>r2\<close>, \<^verbatim>\<open>tof\<close> and \<^verbatim>\<open>is_prograde\<close>; that \<^verbatim>\<open>F\<close> is the
  residual computed by one of the passes.
\<close>

theorem solve_fp_convergence:
  assumes "\<not> feq a (norm_fp a r1) (lit a 0)" and "\<not> feq a (norm_fp a r2) (lit a 0)"
    and "\<not> feq a (A_fp a r1 r2 is_prograde) (lit a 0)"
  shows "((\<exists>v. solve_fp a y0 F0 mu r1 r2 tof is_prograde = Some (Inr v)) \<longleftrightarrow>
            (\<exists>k st. k < 1000 \<and>
               after_fp a (norm_fp a r1) (norm_fp a r2) (A_fp a r1 r2 is_prograde) mu tof k
                 (locals_fp a y0 F0 (dtheta_fp a r1 r2 is_prograde)) = Some st \<and>
               \<not> flt a (y_fp a (norm_fp a r1) (norm_fp a r2) (A_fp a r1 r2 is_prograde)
                          (loc_z st)) (lit a 0) \<and>
               flt a (fabs a (residual_fp a (norm_fp a r1) (norm_fp a r2)
                                (A_fp a r1 r2 is_prograde) mu tof (loc_z st)))
                     (lit a (1 / 100000000)))) \<and>
         (solve_fp a y0 F0 mu r1 r2 tof is_prograde =
            Some (Inl (NonConvergence_fp F z y r1' r2' tof' is_prograde')) \<longleftrightarrow>
            (\<exists>st. after_fp a (norm_fp a r1) (norm_fp a r2) (A_fp a r1 r2 is_prograde) mu tof 1000
                    (locals_fp a y0 F0 (dtheta_fp a r1 r2 is_prograde)) = Some st \<and>
                  F = loc_F st \<and> z = loc_z st \<and> y = loc_y st \<and>
                  r1' = r1 \<and> r2' = r2 \<and> tof' = tof \<and> is_prograde' = is_prograde)) \<and>
         (\<forall>st. after_fp a (norm_fp a r1) (norm_fp a r2) (A_fp a r1 r2 is_prograde) mu tof 1000
                    (locals_fp a y0 F0 (dtheta_fp a r1 r2 is_prograde)) = Some st \<longrightarrow>
               F_assigned a (norm_fp a r1) (norm_fp a r2) (A_fp a r1 r2 is_prograde) mu tof
                 (locals_fp a y0 F0 (dtheta_fp a r1 r2 is_prograde)) 1000 st)"
proof -
  let ?n1 = "norm_fp a r1" and ?n2 = "norm_fp a r2" and ?A = "A_fp a r1 r2 is_prograde"
  let ?st0 = "locals_fp a y0 F0 (dtheta_fp a r1 r2 is_prograde)"
  let ?l = "loop_fp a ?n1 ?n2 ?A mu tof ?st0"
  have it0: "loc_iteration ?st0 = 0"
    by (simp add: locals_fp_def)
  have "(\<exists>v. solve_fp a y0 F0 mu r1 r2 tof is_prograde = Some (Inr v)) \<longleftrightarrow>
        (\<exists>y. ?l = Some (Converged_fp y))"
    using assms by (auto simp: solve_fp_def Let_def split: option.splits outcome.splits)
  also have "\<dots> \<longleftrightarrow> (\<exists>k st. k < 1000 \<and> after_fp a ?n1 ?n2 ?A mu tof k ?st0 = Some st \<and>
               \<not> flt a (y_fp a ?n1 ?n2 ?A (loc_z st)) (lit a 0) \<and>
               flt a (fabs a (residual_fp a ?n1 ?n2 ?A mu tof (loc_z st))) (lit a (1 / 100000000)))"
    unfolding loop_fp_converged_iff pass_fp_break_iff it0 by auto
  finally have first: "(\<exists>v. solve_fp a y0 F0 mu r1 r2 tof is_prograde = Some (Inr v)) \<longleftrightarrow>
      (\<exists>k st. k < 1000 \<and> after_fp a ?n1 ?n2 ?A mu tof k ?st0 = Some st \<and>
               \<not> flt a (y_fp a ?n1 ?n2 ?A (loc_z st)) (lit a 0) \<and>
               flt a (fabs a (residual_fp a ?n1 ?n2 ?A mu tof (loc_z st))) (lit a (1 / 100000000)))" .
  have "solve_fp a y0 F0 mu r1 r2 tof is_prograde =
            Some (Inl (NonConvergence_fp F z y r1' r2' tof' is_prograde')) \<longleftrightarrow>
        (\<exists>st. ?l = Some (Exhausted_fp st) \<and> F = loc_F st \<and> z = loc_z st \<and> y = loc_y st \<and>
              r1' = r1 \<and> r2' = r2 \<and> tof' = tof \<and> is_prograde' = is_prograde)"
    using assms by (auto simp: solve_fp_def Let_def split: option.splits outcome.splits)
  then have second: "solve_fp a y0 F0 mu r1 r2 tof is_prograde =
            Some (Inl (NonConvergence_fp F z y r1' r2' tof' is_prograde')) \<longleftrightarrow>
        (\<exists>st. after_fp a ?n1 ?n2 ?A mu tof 1000 ?st0 = Some st \<and>
              F = loc_F st \<and> z = loc_z st \<and> y = loc_y st \<and>
              r1' = r1 \<and> r2' = r2 \<and> tof' = tof \<and> is_prograde' = is_prograde)"
    unfolding loop_fp_exhausted_iff it0 by simp
  have third: "F_assigned a ?n1 ?n2 ?A mu tof ?st0 1000 st"
    if "after_fp a ?n1 ?n2 ?A mu tof 1000 ?st0 = Some st" for st
  proof -
    have m: "(1000 :: nat) = Suc (Suc 998)" by simp
    show ?thesis using after_fp_F_assigned [of a ?n1 ?n2 ?A mu tof 998 ?st0 st] that
      unfolding m [symmetric] .
  qed
  from first second third show ?thesis by blast
qed

theorem solve_fp_convergence_witness:
  "(\<exists>v. solve_fp exact_fp (Fin 0) (Fin 0) (Fin 1) r1_example r2_example example_tof True =
          Some (Inr v)) \<and>
   solve_fp exact_fp (Fin 0) (Fin 0) (Fin (3986004418 / 10000))
       \<lparr> vx = Fin 7000, vy = Fin 0, vz = Fin 0 \<rparr> \<lparr> vx = Fin 7000, vy = Fin 0, vz = Fin 0 \<rparr>
       (Fin 3600) True =
     Some (Inl (NonConvergence_fp NaN z_low NaN
       \<lparr> vx = Fin 7000, vy = Fin 0, vz = Fin 0 \<rparr> \<lparr> vx = Fin 7000, vy = Fin 0, vz = Fin 0 \<rparr>
       (Fin 3600) True))"
proof -
  let ?r = "\<lparr> vx = Fin 7000, vy = Fin 0, vz = Fin 0 \<rparr>"
  let ?e0 = "\<lparr> cur_z = z_low, cur_y = None, cur_F = None, iteration = 0 \<rparr>"
  have n: "\<not> feq exact_fp (norm_fp exact_fp r1_example) (lit exact_fp 0)"
    "\<not> feq exact_fp (norm_fp exact_fp r2_example) (lit exact_fp 0)"
    "\<not> feq exact_fp (A_fp exact_fp r1_example r2_example True) (lit exact_fp 0)"
    by (simp_all add: exact_fp_simps norm_exact A_exact example_norms example_A deq_def)
  have s0: "locals_fp exact_fp (Fin 0) (Fin 0) (dtheta_fp exact_fp r1_example r2_example True) =
      locals_of (Fin 0) (Fin 0) ?e0"
    by (simp add: locals_exact dtheta_exact example_init)
  have "\<exists>k st. k < 1000 \<and>
      after_fp exact_fp (norm_fp exact_fp r1_example) (norm_fp exact_fp r2_example)
        (A_fp exact_fp r1_example r2_example True) (Fin 1) example_tof k
        (locals_fp exact_fp (Fin 0) (Fin 0) (dtheta_fp exact_fp r1_example r2_example True)) =
        Some st \<and>
      \<not> flt exact_fp (y_fp exact_fp (norm_fp exact_fp r1_example) (norm_fp exact_fp r2_example)
            (A_fp exact_fp r1_example r2_example True) (loc_z st)) (lit exact_fp 0) \<and>
      flt exact_fp (fabs exact_fp (residual_fp exact_fp (norm_fp exact_fp r1_example)
            (norm_fp exact_fp r2_example) (A_fp exact_fp r1_example r2_example True) (Fin 1)
            example_tof (loc_z st))) (lit exact_fp (1 / 100000000))"
    unfolding s0 using y_example_pos
    by (intro exI [of _ 0] exI [of _ "locals_of (Fin 0) (Fin 0) ?e0"])
       (simp add: exact_fp_simps norm_exact A_exact y_exact residual_exact example_norms
          example_A y_example example_residual locals_of_def)
  with solve_fp_convergence [where a = exact_fp and ?r1.0 = r1_example and ?r2.0 = r2_example
      and is_prograde = True and ?y0.0 = "Fin 0" and ?F0.0 = "Fin 0" and mu = "Fin 1"
      and tof = example_tof, OF n]
  have first: "\<exists>v. solve_fp exact_fp (Fin 0) (Fin 0) (Fin 1) r1_example r2_example example_tof
      True = Some (Inr v)"
    by blast
  have h: "\<not> feq exact_fp (norm_fp exact_fp ?r) (lit exact_fp 0)"
    "\<not> feq exact_fp (A_fp exact_fp ?r ?r True) (lit exact_fp 0)"
    by (simp_all add: exact_fp_simps norm_exact A_exact same_vector_norm same_vector_A deq_def)
  have "after_passes (Fin 7000) (Fin 7000) NaN (Fin (3986004418 / 10000))
             (Fin 3600) max_iterations (initial_state (dtheta ?r ?r True)) =
           Some \<lparr> cur_z = z_low, cur_y = Some NaN, cur_F = Some NaN,
                  iteration = max_iterations \<rparr>"
    using loop_NaN [of "Fin 7000" "Fin 7000" "Fin (3986004418 / 10000)" "Fin 3600"
        "dtheta ?r ?r True"]
    unfolding loop_exhausted_iff by (simp add: initial_state_def)
  then have "after_fp exact_fp (Fin 7000) (Fin 7000) NaN (Fin (3986004418 / 10000)) (Fin 3600)
        max_iterations (locals_of (Fin 0) (Fin 0) (initial_state (dtheta ?r ?r True))) =
        Some (locals_of (Fin 0) (Fin 0) \<lparr> cur_z = z_low, cur_y = Some NaN, cur_F = Some NaN,
                  iteration = max_iterations \<rparr>)"
    unfolding after_exact by simp
  then have a: "after_fp exact_fp (norm_fp exact_fp ?r) (norm_fp exact_fp ?r)
        (A_fp exact_fp ?r ?r True) (Fin (3986004418 / 10000)) (Fin 3600) 1000
        (locals_fp exact_fp (Fin 0) (Fin 0) (dtheta_fp exact_fp ?r ?r True)) =
        Some \<lparr> loc_z = z_low, loc_y = NaN, loc_F = NaN, loc_iteration = 1000 \<rparr>"
    unfolding norm_exact A_exact dtheta_exact same_vector_norm same_vector_A locals_exact
    by (simp add: max_iterations_def locals_of_def)
  from solve_fp_convergence [where a = exact_fp and ?r1.0 = ?r and ?r2.0 = ?r
      and is_prograde = True and ?y0.0 = "Fin 0" and ?F0.0 = "Fin 0"
      and mu = "Fin (3986004418 / 10000)" and tof = "Fin 3600"
      and F = NaN and z = z_low and y = NaN and ?r1'.0 = ?r and ?r2'.0 = ?r
      and tof' = "Fin 3600" and is_prograde' = True, OF h(1) h(1) h(2)] a
  have second: "solve_fp exact_fp (Fin 0) (Fin 0) (Fin (3986004418 / 10000)) ?r ?r (Fin 3600) True =
     Some (Inl (NonConvergence_fp NaN z_low NaN ?r ?r (Fin 3600) True))"
    by simp
  from first second show ?thesis by blast
qed

subsection \<open>The input check\<close>

lemma ranged_fp_simps:
  "lit ranged_fp = lit64" "fneg ranged_fp = uminus"
  "fadd ranged_fp = (\<lambda>x y. clip (x + y))" "fsub ranged_fp = (\<lambda>x y. clip (x - y))"
  "fmul ranged_fp = (\<lambda>x y. clip (x * y))" "fdiv ranged_fp = (\<lambda>x y. clip (x / y))"
  "fabs ranged_fp = abs" "flt ranged_fp = (<)" "fle ranged_fp = (\<le>)" "feq ranged_fp = deq"
  "fsqrt ranged_fp = (\<lambda>x. clip (dsqrt x))" "fcos ranged_fp = (\<lambda>x. clip (dcos x))"
  "fsin ranged_fp = (\<lambda>x. clip (dsin x))" "fcosh ranged_fp = (\<lambda>x. clip (dcosh x))"
  "fsinh ranged_fp = (\<lambda>x. clip (dsinh x))" "fpow15 ranged_fp = (\<lambda>x. clip (dpow15 x))"
  "fatan2 ranged_fp = (\<lambda>y x. clip (datan2 y x))"
  by (simp_all add: ranged_fp_def)

lemma lit64_simps:
  "lit64 0 = Fin 0" "lit64 1 = Fin 1" "lit64 2 = Fin 2" "lit64 (- 1) = Fin (- 1)"
  by (simp_all add: lit64_def)

lemma clip_0: "clip (Fin 0) = Fin 0"
  by simp







subsection \<open>What counts toward the budget, in any arithmetic\<close>

lemma passes_le:
  "newton_fp a r1_norm r2_norm A mu tof k st + repair_fp a r1_norm r2_norm A mu tof k st \<le> k"
proof (induction k arbitrary: st)
  case 0
  show ?case by simp
next
  case (Suc k)
  show ?case
  proof (cases "pass_fp a r1_norm r2_norm A mu tof st")
    case None
    then show ?thesis by simp
  next
    case (Some pe)
    show ?thesis
    proof (cases pe)
      case (Continue_fp st1)
      with Some Suc.IH [of st1] show ?thesis by simp
    next
      case (Break_fp y)
      with Some show ?thesis by simp
    next
      case Throw_fp
      with Some show ?thesis by simp
    qed
  qed
qed

lemma passes_sum:
  "after_fp a r1_norm r2_norm A mu tof k st = Some st' \<Longrightarrow>
   newton_fp a r1_norm r2_norm A mu tof k st + repair_fp a r1_norm r2_norm A mu tof k st = k"
proof (induction k arbitrary: st)
  case 0
  show ?case by simp
next
  case (Suc k)
  then show ?case
    by (auto split: option.splits step.splits)
qed

lemma newton_exact:
  "newton_fp exact_fp r1_norm r2_norm A mu tof k (locals_of y0 F0 st) =
     newton_passes r1_norm r2_norm A mu tof k st"
proof (induction k arbitrary: st)
  case 0
  show ?case by simp
next
  case (Suc k)
  have z: "loc_z (locals_of y0 F0 st) = cur_z st" by (simp add: locals_of_def)
  show ?case
  proof (cases "pass r1_norm r2_norm A mu tof st")
    case None
    then show ?thesis by (simp add: pass_exact z y_exact exact_fp_simps)
  next
    case (Some pe)
    then show ?thesis using Suc.IH
      by (cases pe) (simp_all add: pass_exact z y_exact exact_fp_simps)
  qed
qed

text \<open>
  Claim C5, amended.  Whatever the arithmetic, every pass through the body of
  the outer loop adds one to \<^verbatim>\<open>iteration\<close>, a pass through the inner loop
  (which computes no \<^verbatim>\<open>F\<close>) like any other, and the loop makes no pass once
  \<^verbatim>\<open>iteration\<close> is 1000.  So the Newton iterations are at most 1000 less the
  passes through the inner loop; and when \<^verbatim>\<open>solve\<close> gives up, the two together
  are exactly 1000.
\<close>

theorem every_pass_counts_fp:
  "(pass_fp a r1_norm r2_norm A mu tof st = Some (Continue_fp st') \<longrightarrow>
      loc_iteration st' = loc_iteration st + 1 \<and>
      (flt a (y_fp a r1_norm r2_norm A (loc_z st)) (lit a 0) \<longrightarrow> loc_F st' = loc_F st)) \<and>
   (loc_iteration st = 1000 \<longrightarrow> loop_fp a r1_norm r2_norm A mu tof st = Some (Exhausted_fp st)) \<and>
   newton_fp a r1_norm r2_norm A mu tof 1000 (locals_fp a y0 F0 dth)
     \<le> 1000 - repair_fp a r1_norm r2_norm A mu tof 1000 (locals_fp a y0 F0 dth) \<and>
   (loop_fp a r1_norm r2_norm A mu tof (locals_fp a y0 F0 dth) = Some (Exhausted_fp st'') \<longrightarrow>
      after_fp a r1_norm r2_norm A mu tof 1000 (locals_fp a y0 F0 dth) = Some st'' \<and>
      loc_iteration st'' = 1000 \<and>
      newton_fp a r1_norm r2_norm A mu tof 1000 (locals_fp a y0 F0 dth) +
      repair_fp a r1_norm r2_norm A mu tof 1000 (locals_fp a y0 F0 dth) = 1000)"
proof (intro conjI impI)
  assume p: "pass_fp a r1_norm r2_norm A mu tof st = Some (Continue_fp st')"
  then show "loc_iteration st' = loc_iteration st + 1" by (rule pass_fp_iteration)
  assume "flt a (y_fp a r1_norm r2_norm A (loc_z st)) (lit a 0)"
  with p show "loc_F st' = loc_F st" by (rule pass_fp_repair(1))
next
  assume "loc_iteration st = 1000"
  then show "loop_fp a r1_norm r2_norm A mu tof st = Some (Exhausted_fp st)"
    by (subst loop_fp.simps) simp
next
  from passes_le [of a r1_norm r2_norm A mu tof 1000 "locals_fp a y0 F0 dth"]
  show "newton_fp a r1_norm r2_norm A mu tof 1000 (locals_fp a y0 F0 dth)
     \<le> 1000 - repair_fp a r1_norm r2_norm A mu tof 1000 (locals_fp a y0 F0 dth)"
    by linarith
next
  assume "loop_fp a r1_norm r2_norm A mu tof (locals_fp a y0 F0 dth) = Some (Exhausted_fp st'')"
  then show a: "after_fp a r1_norm r2_norm A mu tof 1000 (locals_fp a y0 F0 dth) = Some st''"
    unfolding loop_fp_exhausted_iff by (simp add: locals_fp_def)
  from after_fp_iteration [OF a] show "loc_iteration st'' = 1000"
    by (simp add: locals_fp_def)
  from passes_sum [OF a]
  show "newton_fp a r1_norm r2_norm A mu tof 1000 (locals_fp a y0 F0 dth) +
      repair_fp a r1_norm r2_norm A mu tof 1000 (locals_fp a y0 F0 dth) = 1000" .
qed

theorem every_pass_counts_fp_witness:
  "pass_fp exact_fp (Fin 1) (Fin 1) (Fin 1) (Fin 1) NaN
     \<lparr> loc_z = z_low, loc_y = y_repaired, loc_F = NaN, loc_iteration = 999 \<rparr> =
     Some (Continue_fp \<lparr> loc_z = z_repaired, loc_y = y_repaired, loc_F = NaN,
                         loc_iteration = 1000 \<rparr>) \<and>
   loop_fp exact_fp (Fin 1) (Fin 1) (Fin 1) (Fin 1) NaN
     \<lparr> loc_z = z_repaired, loc_y = y_repaired, loc_F = NaN, loc_iteration = 1000 \<rparr> =
     Some (Exhausted_fp \<lparr> loc_z = z_repaired, loc_y = y_repaired, loc_F = NaN,
                          loc_iteration = 1000 \<rparr>) \<and>
   loop_fp exact_fp (Fin 1) (Fin 1) (Fin 1) (Fin 1) NaN
     (locals_fp exact_fp (Fin 0) (Fin 0) (Fin (pi / 2))) =
     Some (Exhausted_fp \<lparr> loc_z = z_repaired, loc_y = y_repaired, loc_F = NaN,
                          loc_iteration = 1000 \<rparr>) \<and>
   newton_fp exact_fp (Fin 1) (Fin 1) (Fin 1) (Fin 1) NaN 1000
     (locals_fp exact_fp (Fin 0) (Fin 0) (Fin (pi / 2))) = 500 \<and>
   repair_fp exact_fp (Fin 1) (Fin 1) (Fin 1) (Fin 1) NaN 1000
     (locals_fp exact_fp (Fin 0) (Fin 0) (Fin (pi / 2))) = 500"
proof -
  let ?c999 = "\<lparr> cur_z = z_low, cur_y = Some y_repaired, cur_F = Some NaN, iteration = 999 \<rparr>"
  let ?s999 = "\<lparr> loc_z = z_low, loc_y = y_repaired, loc_F = NaN, loc_iteration = 999 \<rparr>"
  let ?s1000 = "\<lparr> loc_z = z_repaired, loc_y = y_repaired, loc_F = NaN, loc_iteration = 1000 \<rparr>"
  let ?c0 = "\<lparr> cur_z = z_up, cur_y = None, cur_F = None, iteration = 0 \<rparr>"
  let ?s0 = "locals_fp exact_fp (Fin 0) (Fin 0) (Fin (pi / 2))"
  have "\<not> PI_r < pi / 2" using pi_half_less_two by (simp add: PI_r_def)
  then have s0: "?s0 = locals_of (Fin 0) (Fin 0) ?c0"
    by (simp add: locals_exact initial_state_def z_init_def z_up_def PI_def)
  have s999: "?s999 = locals_of (Fin 0) (Fin 0) ?c999"
    by (simp add: locals_of_def)
  have p: "pass_fp exact_fp (Fin 1) (Fin 1) (Fin 1) (Fin 1) NaN ?s999 = Some (Continue_fp ?s1000)"
    unfolding s999 pass_exact using pass_repair [of ?c999 "Fin 1" NaN]
    by (simp add: locals_of_def)
  have l: "loop_fp exact_fp (Fin 1) (Fin 1) (Fin 1) (Fin 1) NaN ?s0 = Some (Exhausted_fp ?s1000)"
  proof -
    have "after_fp exact_fp (Fin 1) (Fin 1) (Fin 1) (Fin 1) NaN max_iterations
            (locals_of (Fin 0) (Fin 0) ?c0) =
          Some (locals_of (Fin 0) (Fin 0) \<lparr> cur_z = z_repaired, cur_y = Some y_repaired,
                  cur_F = Some NaN, iteration = max_iterations \<rparr>)"
      unfolding after_exact using quarter_run [of "Fin 1"] by simp
    then show ?thesis
      unfolding loop_fp_exhausted_iff s0 by (simp add: max_iterations_def locals_of_def)
  qed
  have n: "newton_fp exact_fp (Fin 1) (Fin 1) (Fin 1) (Fin 1) NaN 1000 ?s0 = 500"
    unfolding s0 newton_exact using quarter_run [of "Fin 1"] by (simp add: max_iterations_def)
  from every_pass_counts_fp [of exact_fp "Fin 1" "Fin 1" "Fin 1" "Fin 1" NaN ?s999 ?s1000
      "Fin 0" "Fin 0" "Fin (pi / 2)" ?s1000]
    every_pass_counts_fp [of exact_fp "Fin 1" "Fin 1" "Fin 1" "Fin 1" NaN ?s1000 ?s1000
      "Fin 0" "Fin 0" "Fin (pi / 2)" ?s1000] p l n
  show ?thesis by simp
qed

subsection \<open>The range of binary64\<close>

lemma clip_cases:
  assumes "\<bar>x\<bar> < 2 ^ 1024"
  shows "clip (Fin x) = Fin x \<or> clip (Fin x) = Fin 0"
  using assms by auto

lemma clip_id:
  assumes "1 / 2 ^ 1075 \<le> \<bar>x\<bar>" and "\<bar>x\<bar> < 2 ^ 1024"
  shows "clip (Fin x) = Fin x"
  using assms by auto

lemma clip_NaN_iff: "clip x = NaN \<longleftrightarrow> x = NaN"
  by (cases x) auto

lemma PI_ranged: "PI_fp ranged_fp = Fin PI_64"
  by (simp add: PI_fp_def ranged_fp_simps lit64_def PI_64_def)

lemma PI_64_bounds: "3 < PI_64" "PI_64 < pi"
proof -
  show "3 < PI_64" by (simp add: PI_64_def)
  have "PI_64 < 314159265358979323846 / 100000000000000000000"
    by (simp add: PI_64_def)
  with PI_lit_less_pi show "PI_64 < pi" by linarith
qed

lemma two_PI_ranged: "fmul ranged_fp (lit ranged_fp 2) (PI_fp ranged_fp) = Fin (2 * PI_64)"
proof -
  have "clip (Fin (2 * PI_64)) = Fin (2 * PI_64)"
    by (rule clip_id) (simp_all add: PI_64_def)
  then show ?thesis by (simp add: PI_ranged ranged_fp_simps lit64_simps)
qed

subsection \<open>The transfer angle\<close>

lemma cos_ranged: "\<exists>c. cos_dtheta_fp ranged_fp r1 r2 = Fin c \<and> - 1 \<le> c \<and> c \<le> 1"
proof -
  define q where "q = fdiv ranged_fp (dot_fp ranged_fp r1 r2)
                        (fmul ranged_fp (norm_fp ranged_fp r1) (norm_fp ranged_fp r2))"
  have "\<exists>c. max_fp ranged_fp (fneg ranged_fp (lit ranged_fp 1))
              (min_fp ranged_fp (lit ranged_fp 1) q) = Fin c \<and>
            - 1 \<le> c \<and> c \<le> 1"
    by (cases q) (auto simp: max_fp_def min_fp_def ranged_fp_simps lit64_simps)
  then show ?thesis unfolding cos_dtheta_fp_def q_def .
qed

lemma atan2_ranged:
  assumes "s \<noteq> NaN"
  shows "\<exists>v. fatan2 ranged_fp s (Fin c) = Fin v \<and> - pi < v \<and> v \<le> pi"
proof -
  have "\<exists>w. datan2 s (Fin c) = Fin w \<and> - pi < w \<and> w \<le> pi"
  proof (cases s)
    case (Fin y)
    then show ?thesis using atan2r_range [of y c] by simp
  next
    case PInf
    have "- pi < pi / 2" "pi / 2 \<le> pi" using pi_gt_zero by linarith+
    then show ?thesis unfolding PInf by (intro exI [of _ "pi / 2"]) simp
  next
    case NInf
    have "- pi < - (pi / 2)" "- (pi / 2) \<le> pi" using pi_gt_zero by linarith+
    then show ?thesis unfolding NInf by (intro exI [of _ "- (pi / 2)"]) simp
  next
    case NaN
    then show ?thesis using assms by simp
  qed
  then obtain w where w: "datan2 s (Fin c) = Fin w" "- pi < w" "w \<le> pi" by blast
  have "pi < 2 ^ 1024" using pi_less_4 by (simp add: less_le_trans)
  then have "\<bar>w\<bar> < 2 ^ 1024" using w by linarith
  from clip_cases [OF this] w pi_gt_zero show ?thesis
    by (auto simp: ranged_fp_simps)
qed

lemma dtheta_ranged:
  assumes "sin_dtheta_fp ranged_fp r1 r2 is_prograde \<noteq> NaN"
  shows "\<exists>t. dtheta_fp ranged_fp r1 r2 is_prograde = Fin t \<and> 0 \<le> t \<and> t < 2 * pi"
proof -
  obtain c where c: "cos_dtheta_fp ranged_fp r1 r2 = Fin c"
    using cos_ranged by blast
  from atan2_ranged [OF assms, of c] obtain v where
    v: "fatan2 ranged_fp (sin_dtheta_fp ranged_fp r1 r2 is_prograde) (Fin c) = Fin v"
    and b: "- pi < v" "v \<le> pi" by blast
  show ?thesis
  proof (cases "v < 0")
    case False
    then have "dtheta_fp ranged_fp r1 r2 is_prograde = Fin v"
      by (simp add: dtheta_fp_def c v Let_def ranged_fp_simps(1,8) lit64_simps)
    moreover have "0 \<le> v" "v < 2 * pi" using False b pi_gt_zero by linarith+
    ultimately show ?thesis by blast
  next
    case True
    have r: "0 < v + 2 * PI_64" "v + 2 * PI_64 < 2 * pi" "2 < v + 2 * PI_64"
      using True b PI_64_bounds pi_less_4 by linarith+
    have "clip (Fin (v + 2 * PI_64)) = Fin (v + 2 * PI_64)"
    proof (rule clip_id)
      have "(1 :: real) / 2 ^ 1075 \<le> 2" by simp
      then show "1 / 2 ^ 1075 \<le> \<bar>v + 2 * PI_64\<bar>" using r by linarith
      have "(8 :: real) < 2 ^ 1024" by simp
      then show "\<bar>v + 2 * PI_64\<bar> < 2 ^ 1024" using r pi_less_4 by linarith
    qed
    then have "fadd ranged_fp (Fin v) (Fin (2 * PI_64)) = Fin (v + 2 * PI_64)"
      by (simp add: ranged_fp_simps)
    then have "dtheta_fp ranged_fp r1 r2 is_prograde = Fin (v + 2 * PI_64)"
      using True unfolding dtheta_fp_def c v Let_def two_PI_ranged
      by (simp add: ranged_fp_simps(1,8) lit64_simps)
    then show ?thesis using r by simp
  qed
qed

lemma dtheta_ranged_NaN:
  assumes "sin_dtheta_fp ranged_fp r1 r2 is_prograde = NaN"
  shows "dtheta_fp ranged_fp r1 r2 is_prograde = NaN"
  by (simp add: dtheta_fp_def assms Let_def ranged_fp_simps)

lemma huge_norms: "norm_fp ranged_fp r1_huge = PInf" "norm_fp ranged_fp r2_huge = PInf"
  by (simp_all add: norm_fp_def ranged_fp_simps r1_huge_def r2_huge_def)

lemma huge_cross:
  "cross_fp ranged_fp r1_huge r2_huge = \<lparr> vx = Fin 0, vy = Fin 0, vz = PInf \<rparr>"
  by (simp add: cross_fp_def ranged_fp_simps r1_huge_def r2_huge_def minus_dbl_def)

lemma huge_sin: "sin_dtheta_fp ranged_fp r1_huge r2_huge True = NaN"
  unfolding sin_dtheta_fp_def huge_cross huge_norms
  by (simp add: norm_fp_def ranged_fp_simps lit64_simps Let_def)

lemma clip_half_pi: "clip (Fin (pi / 2)) = Fin (pi / 2)" "clip (Fin (- (pi / 2))) = Fin (- (pi / 2))"
proof -
  have "(1 :: real) / 2 ^ 1075 \<le> 1" by simp
  then have l: "1 / 2 ^ 1075 \<le> \<bar>pi / 2\<bar>" using pi_ge_two by linarith
  have "(2 :: real) < 2 ^ 1024" by simp
  then have u: "\<bar>pi / 2\<bar> < 2 ^ 1024" using pi_less_4 pi_gt_zero by linarith
  show "clip (Fin (pi / 2)) = Fin (pi / 2)" by (rule clip_id [OF l u])
  from l u show "clip (Fin (- (pi / 2))) = Fin (- (pi / 2))"
    by (intro clip_id) simp_all
qed

lemma unit_cross:
  "cross_fp ranged_fp r1_example r2_example = \<lparr> vx = Fin 0, vy = Fin 0, vz = Fin (- 1) \<rparr>"
  "cross_fp ranged_fp r1_quarter r2_quarter = \<lparr> vx = Fin 0, vy = Fin 0, vz = Fin 1 \<rparr>"
  by (simp_all add: cross_fp_def ranged_fp_simps r1_example_def r2_example_def
        r1_quarter_def r2_quarter_def minus_dbl_def)

lemma unit_norms:
  "norm_fp ranged_fp r1_example = Fin 1" "norm_fp ranged_fp r2_example = Fin 1"
  "norm_fp ranged_fp r1_quarter = Fin 1" "norm_fp ranged_fp r2_quarter = Fin 1"
  "norm_fp ranged_fp \<lparr> vx = Fin 0, vy = Fin 0, vz = Fin (- 1) \<rparr> = Fin 1"
  "norm_fp ranged_fp \<lparr> vx = Fin 0, vy = Fin 0, vz = Fin 1 \<rparr> = Fin 1"
  by (simp_all add: norm_fp_def ranged_fp_simps r1_example_def r2_example_def
        r1_quarter_def r2_quarter_def)

lemma unit_sin:
  "sin_dtheta_fp ranged_fp r1_example r2_example True = Fin (- 1)"
  "sin_dtheta_fp ranged_fp r1_quarter r2_quarter False = Fin (- 1)"
  "sin_dtheta_fp ranged_fp r1_quarter r2_quarter True = Fin 1"
  unfolding sin_dtheta_fp_def unit_cross unit_norms
  by (simp_all add: ranged_fp_simps lit64_simps Let_def)

lemma unit_cos:
  "cos_dtheta_fp ranged_fp r1_example r2_example = Fin 0"
  "cos_dtheta_fp ranged_fp r1_quarter r2_quarter = Fin 0"
  unfolding cos_dtheta_fp_def unit_norms
  by (simp_all add: dot_fp_def max_fp_def min_fp_def ranged_fp_simps lit64_simps
        r1_example_def r2_example_def r1_quarter_def r2_quarter_def)

lemma unit_dtheta:
  "dtheta_fp ranged_fp r1_example r2_example True = Fin (2 * PI_64 - pi / 2)"
  "dtheta_fp ranged_fp r1_quarter r2_quarter False = Fin (2 * PI_64 - pi / 2)"
  "dtheta_fp ranged_fp r1_quarter r2_quarter True = Fin (pi / 2)"
proof -
  have r: "2 < 2 * PI_64 - pi / 2" "2 * PI_64 - pi / 2 < 8"
    using PI_64_bounds pi_less_4 by linarith+
  have "clip (Fin (2 * PI_64 - pi / 2)) = Fin (2 * PI_64 - pi / 2)"
  proof (rule clip_id)
    have "(1 :: real) / 2 ^ 1075 \<le> 2" by simp
    then show "1 / 2 ^ 1075 \<le> \<bar>2 * PI_64 - pi / 2\<bar>" using r by linarith
    have "(8 :: real) < 2 ^ 1024" by simp
    then show "\<bar>2 * PI_64 - pi / 2\<bar> < 2 ^ 1024" using r by linarith
  qed
  then have a: "fadd ranged_fp (Fin (- (pi / 2))) (Fin (2 * PI_64)) = Fin (2 * PI_64 - pi / 2)"
    by (simp add: ranged_fp_simps)
  have t: "fatan2 ranged_fp (Fin (- 1)) (Fin 0) = Fin (- (pi / 2))"
    "fatan2 ranged_fp (Fin 1) (Fin 0) = Fin (pi / 2)"
    by (simp_all add: ranged_fp_simps atan2r_def clip_half_pi del: clip.simps)
  show "dtheta_fp ranged_fp r1_example r2_example True = Fin (2 * PI_64 - pi / 2)"
    "dtheta_fp ranged_fp r1_quarter r2_quarter False = Fin (2 * PI_64 - pi / 2)"
    "dtheta_fp ranged_fp r1_quarter r2_quarter True = Fin (pi / 2)"
    unfolding dtheta_fp_def unit_sin unit_cos t Let_def two_PI_ranged a
    by (simp_all add: ranged_fp_simps(1,8) lit64_simps)
qed

text \<open>
  Claim C2 as stated fails at \<open>r1 = (2\<^sup>6\<^sup>0\<^sup>0, 0, 0)\<close>, \<open>r2 = (0, 2\<^sup>6\<^sup>0\<^sup>0, 0)\<close>, prograde:
  both vectors are nonzero, the squares of their components are beyond the
  range of binary64, the norms and \<open>\<bar>r1 \<times> r2\<bar>\<close> are infinite, \<^verbatim>\<open>sin_dtheta\<close> is
  \<open>\<infinity> / \<infinity>\<close> = NaN and so is \<^verbatim>\<open>dtheta\<close>, which is not in \<open>[0, 2\<pi>)\<close>.
\<close>

theorem transfer_angle_overflow:
  "norm_v r1_huge = Fin (2 ^ 600) \<and> norm_v r2_huge = Fin (2 ^ 600) \<and>
   norm_fp ranged_fp r1_huge = PInf \<and> norm_fp ranged_fp r2_huge = PInf \<and>
   sin_dtheta_fp ranged_fp r1_huge r2_huge True = NaN \<and>
   dtheta_fp ranged_fp r1_huge r2_huge True = NaN"
proof -
  have n: "norm_v \<lparr> vx = Fin x, vy = Fin 0, vz = Fin 0 \<rparr> = Fin \<bar>x\<bar>"
    "norm_v \<lparr> vx = Fin 0, vy = Fin x, vz = Fin 0 \<rparr> = Fin \<bar>x\<bar>" for x
    by (simp_all add: norm_v_def)
  from n(1) [of "2 ^ 600"] have "norm_v r1_huge = Fin (2 ^ 600)" by (simp add: r1_huge_def)
  moreover from n(2) [of "2 ^ 600"] have "norm_v r2_huge = Fin (2 ^ 600)"
    by (simp add: r2_huge_def)
  ultimately show ?thesis
    by (simp add: huge_norms huge_sin dtheta_ranged_NaN)
qed

text \<open>
  Claim C2, amended.  For all position vectors and either flag, in the exact
  arithmetic cut to the range of binary64: \<^verbatim>\<open>sin_dtheta\<close> is the quotient of
  the computed \<open>\<bar>r1 \<times> r2\<bar>\<close> by the product of the computed norms, negated
  exactly when the flag asks for prograde motion and the z component of
  \<open>r1 \<times> r2\<close> is negative, or for retrograde motion and that component is not
  negative; \<^verbatim>\<open>cos_dtheta\<close> is a number in \<open>[-1, 1]\<close>; \<^verbatim>\<open>dtheta\<close> is
  \<^verbatim>\<open>atan2(sin_dtheta, cos_dtheta)\<close>, plus \<^verbatim>\<open>2 * PI\<close> when that is negative; it
  is NaN when \<^verbatim>\<open>sin_dtheta\<close> is NaN and a number in \<open>[0, 2\<pi>)\<close> otherwise.
\<close>

theorem transfer_angle_ranged:
  "sin_dtheta_fp ranged_fp r1 r2 is_prograde =
     (if is_prograde \<and> vz (cross_fp ranged_fp r1 r2) < Fin 0 \<or>
         \<not> is_prograde \<and> Fin 0 \<le> vz (cross_fp ranged_fp r1 r2)
      then - clip (norm_fp ranged_fp (cross_fp ranged_fp r1 r2) /
                     clip (norm_fp ranged_fp r1 * norm_fp ranged_fp r2))
      else clip (norm_fp ranged_fp (cross_fp ranged_fp r1 r2) /
                   clip (norm_fp ranged_fp r1 * norm_fp ranged_fp r2))) \<and>
   cos_dtheta_fp ranged_fp r1 r2 =
     dmax (Fin (- 1)) (dmin (Fin 1)
       (clip (dot_fp ranged_fp r1 r2 / clip (norm_fp ranged_fp r1 * norm_fp ranged_fp r2)))) \<and>
   (\<exists>c. cos_dtheta_fp ranged_fp r1 r2 = Fin c \<and> - 1 \<le> c \<and> c \<le> 1) \<and>
   dtheta_fp ranged_fp r1 r2 is_prograde =
     (if clip (datan2 (sin_dtheta_fp ranged_fp r1 r2 is_prograde) (cos_dtheta_fp ranged_fp r1 r2))
           < Fin 0
      then clip (clip (datan2 (sin_dtheta_fp ranged_fp r1 r2 is_prograde)
                         (cos_dtheta_fp ranged_fp r1 r2)) + Fin (2 * PI_64))
      else clip (datan2 (sin_dtheta_fp ranged_fp r1 r2 is_prograde)
                   (cos_dtheta_fp ranged_fp r1 r2))) \<and>
   (sin_dtheta_fp ranged_fp r1 r2 is_prograde = NaN \<longrightarrow>
      dtheta_fp ranged_fp r1 r2 is_prograde = NaN) \<and>
   (sin_dtheta_fp ranged_fp r1 r2 is_prograde \<noteq> NaN \<longrightarrow>
      (\<exists>t. dtheta_fp ranged_fp r1 r2 is_prograde = Fin t \<and> 0 \<le> t \<and> t < 2 * pi))"
proof (intro conjI impI)
  show "sin_dtheta_fp ranged_fp r1 r2 is_prograde =
     (if is_prograde \<and> vz (cross_fp ranged_fp r1 r2) < Fin 0 \<or>
         \<not> is_prograde \<and> Fin 0 \<le> vz (cross_fp ranged_fp r1 r2)
      then - clip (norm_fp ranged_fp (cross_fp ranged_fp r1 r2) /
                     clip (norm_fp ranged_fp r1 * norm_fp ranged_fp r2))
      else clip (norm_fp ranged_fp (cross_fp ranged_fp r1 r2) /
                   clip (norm_fp ranged_fp r1 * norm_fp ranged_fp r2)))"
    by (simp add: sin_dtheta_fp_def Let_def ranged_fp_simps lit64_simps)
  show "cos_dtheta_fp ranged_fp r1 r2 =
     dmax (Fin (- 1)) (dmin (Fin 1)
       (clip (dot_fp ranged_fp r1 r2 / clip (norm_fp ranged_fp r1 * norm_fp ranged_fp r2))))"
    by (simp add: cos_dtheta_fp_def max_fp_def min_fp_def dmax_def dmin_def ranged_fp_simps
          lit64_simps)
  show "\<exists>c. cos_dtheta_fp ranged_fp r1 r2 = Fin c \<and> - 1 \<le> c \<and> c \<le> 1"
    by (rule cos_ranged)
  have "fmul ranged_fp (lit ranged_fp 2) (PI_fp ranged_fp) = Fin (2 * PI_64)"
    by (rule two_PI_ranged)
  then show "dtheta_fp ranged_fp r1 r2 is_prograde =
     (if clip (datan2 (sin_dtheta_fp ranged_fp r1 r2 is_prograde) (cos_dtheta_fp ranged_fp r1 r2))
           < Fin 0
      then clip (clip (datan2 (sin_dtheta_fp ranged_fp r1 r2 is_prograde)
                         (cos_dtheta_fp ranged_fp r1 r2)) + Fin (2 * PI_64))
      else clip (datan2 (sin_dtheta_fp ranged_fp r1 r2 is_prograde)
                   (cos_dtheta_fp ranged_fp r1 r2)))"
    unfolding dtheta_fp_def Let_def by (simp add: ranged_fp_simps lit64_simps)
next
  assume "sin_dtheta_fp ranged_fp r1 r2 is_prograde = NaN"
  then show "dtheta_fp ranged_fp r1 r2 is_prograde = NaN" by (rule dtheta_ranged_NaN)
next
  assume "sin_dtheta_fp ranged_fp r1 r2 is_prograde \<noteq> NaN"
  then show "\<exists>t. dtheta_fp ranged_fp r1 r2 is_prograde = Fin t \<and> 0 \<le> t \<and> t < 2 * pi"
    by (rule dtheta_ranged)
qed

theorem transfer_angle_ranged_witness:
  "sin_dtheta_fp ranged_fp r1_example r2_example True = Fin (- 1) \<and>
   cos_dtheta_fp ranged_fp r1_example r2_example = Fin 0 \<and>
   dtheta_fp ranged_fp r1_example r2_example True = Fin (2 * PI_64 - pi / 2) \<and>
   0 \<le> 2 * PI_64 - pi / 2 \<and> 2 * PI_64 - pi / 2 < 2 * pi \<and>
   sin_dtheta_fp ranged_fp r1_quarter r2_quarter False = Fin (- 1) \<and>
   dtheta_fp ranged_fp r1_quarter r2_quarter False = Fin (2 * PI_64 - pi / 2) \<and>
   sin_dtheta_fp ranged_fp r1_quarter r2_quarter True = Fin 1 \<and>
   cos_dtheta_fp ranged_fp r1_quarter r2_quarter = Fin 0 \<and>
   dtheta_fp ranged_fp r1_quarter r2_quarter True = Fin (pi / 2) \<and>
   cos_dtheta_fp ranged_fp r1_huge r1_huge = Fin 1 \<and>
   sin_dtheta_fp ranged_fp r1_huge r2_huge True = NaN \<and>
   dtheta_fp ranged_fp r1_huge r2_huge True = NaN"
proof -
  have "dot_fp ranged_fp r1_huge r1_huge = PInf"
    by (simp add: dot_fp_def ranged_fp_simps r1_huge_def)
  then have "cos_dtheta_fp ranged_fp r1_huge r1_huge = Fin 1"
    unfolding cos_dtheta_fp_def huge_norms
    by (simp add: max_fp_def min_fp_def ranged_fp_simps lit64_simps)
  moreover note transfer_angle_ranged [of r1_example r2_example True, THEN conjunct2, THEN conjunct2,
      THEN conjunct2, THEN conjunct2, THEN conjunct2]
    transfer_angle_ranged [of r1_huge r2_huge True, THEN conjunct2, THEN conjunct2,
      THEN conjunct2, THEN conjunct2, THEN conjunct1]
  ultimately show ?thesis
    by (simp add: unit_sin unit_cos unit_dtheta huge_sin)
qed

subsection \<open>Stumpff functions far from zero\<close>

lemma sqrt_far: "sqrt (2 ^ 684) = 2 ^ 342"
  by (rule real_sqrt_unique) simp_all

lemma powr_far: "(2 ^ 684 :: real) powr (3 / 2) = 2 ^ 1026"
  using powr_three_halves [of "2 ^ 342"] by simp

lemma exp_far: "(2 :: real) ^ 1025 + 1 \<le> exp (2 ^ 342)"
proof -
  have "(2 :: real) ^ 1025 + 1 \<le> (1 + 2 ^ 342 / real 4) ^ 4" by simp
  also have "\<dots> \<le> exp (2 ^ 342)"
    by (rule exp_ge_one_plus_x_over_n_power_n) simp_all
  finally show ?thesis .
qed

lemma hyperbolic_far: "(2 :: real) ^ 1024 \<le> sinh (2 ^ 342)" "(2 :: real) ^ 1024 \<le> cosh (2 ^ 342)"
proof -
  have e: "exp (- (2 ^ 342 :: real)) \<le> 1" "0 \<le> exp (- (2 ^ 342 :: real))" by simp_all
  have p: "(2 :: real) ^ 1025 = 2 * 2 ^ 1024" by simp
  have g1: "a \<le> (u - d) / 2" if "2 * a + 1 \<le> u" "d \<le> 1" "0 \<le> d" for a :: real and u :: real and d :: real
    using that by (simp add: field_simps)
  have g2: "a \<le> (u + d) / 2" if "2 * a + 1 \<le> u" "d \<le> 1" "0 \<le> d" for a :: real and u :: real and d :: real
    using that by (simp add: field_simps)
  show "(2 :: real) ^ 1024 \<le> sinh (2 ^ 342)"
    unfolding sinh_field_def by (rule g1 [OF exp_far [unfolded p] e])
  show "(2 :: real) ^ 1024 \<le> cosh (2 ^ 342)"
    unfolding cosh_field_def by (rule g2 [OF exp_far [unfolded p] e])
qed

lemma clip_overflow: "2 ^ 1024 \<le> x \<Longrightarrow> clip (Fin x) = PInf"
  by simp

lemma far_neg: "fneg ranged_fp z_far = Fin (2 ^ 684)"
  by (simp add: z_far_def ranged_fp_simps)

lemma far_sqrt: "fsqrt ranged_fp (Fin (2 ^ 684)) = Fin (2 ^ 342)"
proof -
  have "clip (Fin (2 ^ 342)) = Fin (2 ^ 342)" by (rule clip_id) simp_all
  moreover have "dsqrt (Fin (2 ^ 684)) = Fin (sqrt (2 ^ 684))" by simp
  ultimately show ?thesis
    by (simp only: ranged_fp_simps sqrt_far)
qed

lemma far_branch:
  "\<not> flt ranged_fp (fabs ranged_fp z_far) (lit ranged_fp (1 / 1000000))"
  "\<not> flt ranged_fp (lit ranged_fp 0) z_far"
  by (simp_all add: z_far_def ranged_fp_simps lit64_def)

lemma far_pow: "fpow15 ranged_fp (Fin (2 ^ 684)) = PInf"
proof -
  have "clip (Fin (2 ^ 1026)) = PInf" by (rule clip_overflow) simp
  moreover have "dpow15 (Fin (2 ^ 684)) = Fin ((2 ^ 684) powr (3 / 2))" by simp
  ultimately show ?thesis
    by (simp only: ranged_fp_simps powr_far)
qed

lemma far_hyperbolic:
  "fsinh ranged_fp (Fin (2 ^ 342)) = PInf" "fcosh ranged_fp (Fin (2 ^ 342)) = PInf"
  unfolding ranged_fp_simps using hyperbolic_far
  by (simp_all add: clip_overflow del: clip.simps)

text \<open>
  Claim C3 as stated fails at \<open>z = -2\<^sup>6\<^sup>8\<^sup>4\<close>: \<open>sinh \<surd>-z\<close>, \<open>cosh \<surd>-z\<close> and
  \<open>(-z)\<^sup>1\<^sup>.\<^sup>5\<close> are all beyond the range of binary64, so \<^verbatim>\<open>stumpff_C\<close> returns
  \<open>\<infinity>\<close> and \<^verbatim>\<open>stumpff_S\<close> returns \<open>\<infinity> / \<infinity>\<close> = NaN, which is not the value of
  \<open>(sinh \<surd>-z - \<surd>-z) / (-z)\<^sup>1\<^sup>.\<^sup>5\<close>.
\<close>

theorem stumpff_far_from_zero:
  "stumpff_C_fp ranged_fp z_far = PInf \<and> stumpff_S_fp ranged_fp z_far = NaN"
proof
  note n = far_neg
  have o: "lit ranged_fp 1 = Fin 1" by (simp add: ranged_fp_simps lit64_simps)
  have "fdiv ranged_fp (fsub ranged_fp PInf (Fin 1)) (Fin (2 ^ 684)) = PInf"
    by (simp add: ranged_fp_simps minus_dbl_def)
  then show "stumpff_C_fp ranged_fp z_far = PInf"
    unfolding stumpff_C_fp_def using far_branch
    by (simp only: if_False far_sqrt far_hyperbolic o n)
  have "fdiv ranged_fp (fsub ranged_fp PInf (Fin (2 ^ 342))) PInf = NaN"
    by (simp add: ranged_fp_simps minus_dbl_def)
  then show "stumpff_S_fp ranged_fp z_far = NaN"
    unfolding stumpff_S_fp_def using far_branch
    by (simp only: if_False far_sqrt far_hyperbolic far_pow n)
qed

subsection \<open>Stumpff functions near zero\<close>

lemma bounded_clip:
  assumes "\<bar>r\<bar> \<le> B" and "B < 2 ^ 1024"
  shows "bounded_by B (clip (Fin r))"
proof -
  have "\<bar>r\<bar> < 2 ^ 1024" using assms by linarith
  from clip_cases [OF this] show ?thesis
  proof
    assume "clip (Fin r) = Fin r"
    then show ?thesis unfolding bounded_by_def using assms(1) by blast
  next
    assume c: "clip (Fin r) = Fin 0"
    have "\<bar>0 :: real\<bar> \<le> B" using assms(1) by linarith
    then show ?thesis unfolding bounded_by_def c by blast
  qed
qed

lemma bounded_Fin: "\<bar>r\<bar> \<le> B \<Longrightarrow> bounded_by B (Fin r)"
  by (simp add: bounded_by_def)

lemma bounded_add:
  assumes "bounded_by B1 x" and "bounded_by B2 y" and "B1 + B2 \<le> B" and "B < 2 ^ 1024"
  shows "bounded_by B (fadd ranged_fp x y)"
proof -
  from assms obtain r s where x: "x = Fin r" "\<bar>r\<bar> \<le> B1" and y: "y = Fin s" "\<bar>s\<bar> \<le> B2"
    unfolding bounded_by_def by blast
  have "\<bar>r + s\<bar> \<le> B" using x y assms(3) by linarith
  from bounded_clip [OF this assms(4)] show ?thesis
    unfolding x y ranged_fp_simps by (simp del: clip.simps)
qed

lemma bounded_sub:
  assumes "bounded_by B1 x" and "bounded_by B2 y" and "B1 + B2 \<le> B" and "B < 2 ^ 1024"
  shows "bounded_by B (fsub ranged_fp x y)"
proof -
  from assms obtain r s where x: "x = Fin r" "\<bar>r\<bar> \<le> B1" and y: "y = Fin s" "\<bar>s\<bar> \<le> B2"
    unfolding bounded_by_def by blast
  have "\<bar>r - s\<bar> \<le> B" using x y assms(3) by linarith
  from bounded_clip [OF this assms(4)] show ?thesis
    unfolding x y ranged_fp_simps by (simp add: minus_dbl_def del: clip.simps)
qed

lemma bounded_mul:
  assumes "bounded_by B1 x" and "bounded_by B2 y" and "B1 * B2 \<le> B" and "B < 2 ^ 1024"
  shows "bounded_by B (fmul ranged_fp x y)"
proof -
  from assms obtain r s where x: "x = Fin r" "\<bar>r\<bar> \<le> B1" and y: "y = Fin s" "\<bar>s\<bar> \<le> B2"
    unfolding bounded_by_def by blast
  have "\<bar>r\<bar> * \<bar>s\<bar> \<le> B1 * B2" using x y by (intro mult_mono) simp_all
  then have "\<bar>r * s\<bar> \<le> B" using assms(3) by (simp add: abs_mult)
  from bounded_clip [OF this assms(4)] show ?thesis
    unfolding x y ranged_fp_simps by (simp del: clip.simps)
qed

lemma bounded_div:
  assumes "bounded_by B1 x" and "m \<le> \<bar>d\<bar>" and "0 < m" and "B1 / m \<le> B" and "B < 2 ^ 1024"
  shows "bounded_by B (fdiv ranged_fp x (Fin d))"
proof -
  from assms obtain r where x: "x = Fin r" "\<bar>r\<bar> \<le> B1"
    unfolding bounded_by_def by blast
  have d: "d \<noteq> 0" using assms(2,3) by auto
  have "\<bar>r\<bar> / \<bar>d\<bar> \<le> B1 / m"
    using x assms(2,3) by (intro frac_le) simp_all
  then have "\<bar>r / d\<bar> \<le> B" using assms(4) by simp
  from bounded_clip [OF this assms(5)] show ?thesis
    unfolding x ranged_fp_simps using d by (simp del: clip.simps)
qed

lemma bounded_sqrt:
  assumes "0 \<le> x" and "x \<le> B * B" and "0 \<le> B" and "B < 2 ^ 1024"
  shows "bounded_by B (fsqrt ranged_fp (Fin x))"
proof -
  have "sqrt x \<le> sqrt (B * B)" using assms(2) by (rule real_sqrt_le_mono)
  then have "\<bar>sqrt x\<bar> \<le> B" using assms(1,3) by simp
  from bounded_clip [OF this assms(4)] show ?thesis
    unfolding ranged_fp_simps using assms(1) by (simp del: clip.simps)
qed

lemma bounded_cos: "bounded_by B x \<Longrightarrow> bounded_by 1 (fcos ranged_fp x)"
  unfolding bounded_by_def ranged_fp_simps
  using bounded_clip [of "cos r" 1 for r] by (auto simp: bounded_by_def simp del: clip.simps)

lemma bounded_sin: "bounded_by B x \<Longrightarrow> bounded_by 1 (fsin ranged_fp x)"
  unfolding bounded_by_def ranged_fp_simps
  using bounded_clip [of "sin r" 1 for r] by (auto simp: bounded_by_def simp del: clip.simps)

lemma cosh_500:
  fixes r :: real
  assumes "\<bar>r\<bar> \<le> 500"
  shows "cosh r \<le> 3 ^ 500" and "\<bar>sinh r\<bar> \<le> 3 ^ 500"
proof -
  have "exp \<bar>r\<bar> \<le> exp (real 500 * 1)" using assms by simp
  also have "\<dots> = exp 1 ^ 500" by (rule exp_of_nat_mult)
  also have "\<dots> \<le> 3 ^ 500" using exp_le by (intro power_mono) simp_all
  finally have e: "exp \<bar>r\<bar> \<le> 3 ^ 500" .
  have m: "exp (- \<bar>r\<bar>) \<le> exp \<bar>r\<bar>" by simp
  have p: "0 < exp (- \<bar>r\<bar>)" by simp
  have "cosh r = cosh \<bar>r\<bar>" by simp
  also have "\<dots> \<le> exp \<bar>r\<bar>" unfolding cosh_field_def using m by (simp add: field_simps)
  finally show c: "cosh r \<le> 3 ^ 500" using e by linarith
  have "\<bar>sinh r\<bar> = sinh \<bar>r\<bar>" by (cases "0 \<le> r") simp_all
  also have "\<dots> \<le> exp \<bar>r\<bar>" unfolding sinh_field_def using p by (simp add: field_simps)
  finally show "\<bar>sinh r\<bar> \<le> 3 ^ 500" using e by linarith
qed

lemma bounded_cosh: "bounded_by 500 x \<Longrightarrow> bounded_by (3 ^ 500) (fcosh ranged_fp x)"
proof -
  assume "bounded_by 500 x"
  then obtain r where x: "x = Fin r" "\<bar>r\<bar> \<le> 500" unfolding bounded_by_def by blast
  have "\<bar>cosh r\<bar> \<le> 3 ^ 500" using cosh_500(1) [OF x(2)] cosh_real_nonneg [of r] by simp
  from bounded_clip [OF this] show ?thesis
    unfolding x ranged_fp_simps by (simp del: clip.simps)
qed

lemma bounded_sinh: "bounded_by 500 x \<Longrightarrow> bounded_by (3 ^ 500) (fsinh ranged_fp x)"
proof -
  assume "bounded_by 500 x"
  then obtain r where x: "x = Fin r" "\<bar>r\<bar> \<le> 500" unfolding bounded_by_def by blast
  from bounded_clip [OF cosh_500(2) [OF x(2)]] show ?thesis
    unfolding x ranged_fp_simps by (simp del: clip.simps)
qed

lemma pow15_ranged:
  assumes "threshold_64 \<le> x" and "x \<le> 250000"
  shows "\<exists>p. fpow15 ranged_fp (Fin x) = Fin p \<and> threshold_64 * threshold_64 \<le> p"
proof -
  have t: "0 < threshold_64" "threshold_64 \<le> 1" by (simp_all add: threshold_64_def)
  have x0: "0 \<le> x" using assms t by linarith
  have "x powr (3 / 2) = sqrt x * sqrt x * sqrt x"
    using powr_three_halves [of "sqrt x"] x0 by simp
  then have p: "x powr (3 / 2) = x * sqrt x" using x0 by simp
  have "threshold_64 * threshold_64 \<le> threshold_64 * 1" using t by (intro mult_left_mono) simp_all
  then have "threshold_64 * threshold_64 \<le> x" using assms by simp
  then have "sqrt (threshold_64 * threshold_64) \<le> sqrt x" by (rule real_sqrt_le_mono)
  then have l: "threshold_64 \<le> sqrt x" using t by simp
  have "sqrt x \<le> sqrt (500 * 500)" using assms by (intro real_sqrt_le_mono) simp
  then have u: "sqrt x \<le> 500" by simp
  have lo: "threshold_64 * threshold_64 \<le> x * sqrt x"
    using assms l t by (intro mult_mono) simp_all
  have "x * sqrt x \<le> 250000 * 500"
    using assms u x0 by (intro mult_mono) simp_all
  then have hi: "x * sqrt x \<le> 125000000" by simp
  have "(1 :: real) / 2 ^ 1075 \<le> threshold_64 * threshold_64" by (simp add: threshold_64_def)
  then have a: "1 / 2 ^ 1075 \<le> \<bar>x * sqrt x\<bar>" using lo by linarith
  have "(125000000 :: real) < 2 ^ 1024" by simp
  moreover have "0 \<le> x * sqrt x" using x0 by simp
  ultimately have b: "\<bar>x * sqrt x\<bar> < 2 ^ 1024" using hi by linarith
  have "clip (Fin (x * sqrt x)) = Fin (x * sqrt x)" by (rule clip_id [OF a b])
  then show ?thesis
    unfolding ranged_fp_simps using x0 lo by (simp add: p del: clip.simps)
qed

lemma lit64_exact:
  "lit64 6 = Fin 6" "lit64 24 = Fin 24" "lit64 120 = Fin 120" "lit64 720 = Fin 720"
  "lit64 5040 = Fin 5040" "lit64 40320 = Fin 40320" "lit64 362880 = Fin 362880"
  "lit64 (1 / 1000000) = Fin threshold_64"
  by (simp_all add: lit64_def threshold_64_def)

lemma threshold_64_bounds: "0 < threshold_64" "threshold_64 \<le> 1" "threshold_64 < 1 / 1000000"
  by (simp_all add: threshold_64_def)

lemma stumpff_series_finite:
  assumes "\<bar>z\<bar> < threshold_64"
  shows "\<exists>c s. stumpff_C_fp ranged_fp (Fin z) = Fin c \<and> stumpff_S_fp ranged_fp (Fin z) = Fin s"
proof -
  have z: "bounded_by 1 (Fin z)"
    using assms threshold_64_bounds by (intro bounded_Fin) linarith
  have one: "bounded_by 1 (Fin 1)" by (rule bounded_Fin) simp
  have zz: "bounded_by 1 (fmul ranged_fp (Fin z) (Fin z))"
    by (rule bounded_mul [OF z z]) simp_all
  have zzz: "bounded_by 1 (fmul ranged_fp (fmul ranged_fp (Fin z) (Fin z)) (Fin z))"
    by (rule bounded_mul [OF zz z]) simp_all
  have c1: "bounded_by 1 (fdiv ranged_fp (Fin 1) (Fin 2))"
    by (rule bounded_div [OF one, of 2]) simp_all
  have c2: "bounded_by 1 (fdiv ranged_fp (Fin z) (Fin 24))"
    by (rule bounded_div [OF z, of 24]) simp_all
  have c3: "bounded_by 1 (fdiv ranged_fp (fmul ranged_fp (Fin z) (Fin z)) (Fin 720))"
    by (rule bounded_div [OF zz, of 720]) simp_all
  have c4: "bounded_by 1 (fdiv ranged_fp (fmul ranged_fp (fmul ranged_fp (Fin z) (Fin z)) (Fin z))
                            (Fin 40320))"
    by (rule bounded_div [OF zzz, of 40320]) simp_all
  have c5: "bounded_by 2 (fsub ranged_fp (fdiv ranged_fp (Fin 1) (Fin 2))
                            (fdiv ranged_fp (Fin z) (Fin 24)))"
    by (rule bounded_sub [OF c1 c2]) simp_all
  have c6: "bounded_by 3 (fadd ranged_fp (fsub ranged_fp (fdiv ranged_fp (Fin 1) (Fin 2))
                            (fdiv ranged_fp (Fin z) (Fin 24)))
                          (fdiv ranged_fp (fmul ranged_fp (Fin z) (Fin z)) (Fin 720)))"
    by (rule bounded_add [OF c5 c3]) simp_all
  have C: "bounded_by 4 (stumpff_C_fp ranged_fp (Fin z))"
    unfolding stumpff_C_fp_def using assms bounded_sub [OF c6 c4, of 4]
    by (simp add: ranged_fp_simps(1,7,8) lit64_simps lit64_exact)
  have s1: "bounded_by 1 (fdiv ranged_fp (Fin 1) (Fin 6))"
    by (rule bounded_div [OF one, of 6]) simp_all
  have s2: "bounded_by 1 (fdiv ranged_fp (Fin z) (Fin 120))"
    by (rule bounded_div [OF z, of 120]) simp_all
  have s3: "bounded_by 1 (fdiv ranged_fp (fmul ranged_fp (Fin z) (Fin z)) (Fin 5040))"
    by (rule bounded_div [OF zz, of 5040]) simp_all
  have s4: "bounded_by 1 (fdiv ranged_fp (fmul ranged_fp (fmul ranged_fp (Fin z) (Fin z)) (Fin z))
                            (Fin 362880))"
    by (rule bounded_div [OF zzz, of 362880]) simp_all
  have s5: "bounded_by 2 (fsub ranged_fp (fdiv ranged_fp (Fin 1) (Fin 6))
                            (fdiv ranged_fp (Fin z) (Fin 120)))"
    by (rule bounded_sub [OF s1 s2]) simp_all
  have s6: "bounded_by 3 (fadd ranged_fp (fsub ranged_fp (fdiv ranged_fp (Fin 1) (Fin 6))
                            (fdiv ranged_fp (Fin z) (Fin 120)))
                          (fdiv ranged_fp (fmul ranged_fp (Fin z) (Fin z)) (Fin 5040)))"
    by (rule bounded_add [OF s5 s3]) simp_all
  have S: "bounded_by 4 (stumpff_S_fp ranged_fp (Fin z))"
    unfolding stumpff_S_fp_def using assms bounded_sub [OF s6 s4, of 4]
    by (simp add: ranged_fp_simps(1,7,8) lit64_simps lit64_exact)
  from C S show ?thesis unfolding bounded_by_def by blast
qed

lemma stumpff_elliptic_finite:
  assumes "threshold_64 \<le> z" and "z \<le> 250000"
  shows "\<exists>c s. stumpff_C_fp ranged_fp (Fin z) = Fin c \<and> stumpff_S_fp ranged_fp (Fin z) = Fin s"
proof -
  note t = threshold_64_bounds
  have z0: "0 < z" using assms t by linarith
  have one: "bounded_by 1 (Fin 1)" by (rule bounded_Fin) simp
  have w: "bounded_by 500 (fsqrt ranged_fp (Fin z))"
    using assms z0 by (intro bounded_sqrt) simp_all
  have c1: "bounded_by 2 (fsub ranged_fp (Fin 1) (fcos ranged_fp (fsqrt ranged_fp (Fin z))))"
    by (rule bounded_sub [OF one bounded_cos [OF w]]) simp_all
  have "bounded_by (2 / threshold_64)
          (fdiv ranged_fp (fsub ranged_fp (Fin 1) (fcos ranged_fp (fsqrt ranged_fp (Fin z)))) (Fin z))"
    using assms z0 by (intro bounded_div [OF c1, of threshold_64]) (simp_all add: threshold_64_def)
  then have C: "bounded_by (2 / threshold_64) (stumpff_C_fp ranged_fp (Fin z))"
    unfolding stumpff_C_fp_def using assms z0
    by (simp add: ranged_fp_simps(1,7,8) lit64_simps lit64_exact)
  have s1: "bounded_by 501 (fsub ranged_fp (fsqrt ranged_fp (Fin z))
                              (fsin ranged_fp (fsqrt ranged_fp (Fin z))))"
    by (rule bounded_sub [OF w bounded_sin [OF w]]) simp_all
  from pow15_ranged [OF assms] obtain p where
    p: "fpow15 ranged_fp (Fin z) = Fin p" "threshold_64 * threshold_64 \<le> p" by blast
  have "bounded_by (501 / (threshold_64 * threshold_64))
          (fdiv ranged_fp (fsub ranged_fp (fsqrt ranged_fp (Fin z))
                              (fsin ranged_fp (fsqrt ranged_fp (Fin z)))) (Fin p))"
    using p(2) t(1) by (intro bounded_div [OF s1, of "threshold_64 * threshold_64"])
      (simp_all add: threshold_64_def)
  then have S: "bounded_by (501 / (threshold_64 * threshold_64)) (stumpff_S_fp ranged_fp (Fin z))"
    unfolding stumpff_S_fp_def using assms z0
    by (simp add: ranged_fp_simps(1,7,8) lit64_simps lit64_exact p(1))
  from C S show ?thesis unfolding bounded_by_def by blast
qed

lemma stumpff_hyperbolic_finite:
  assumes "z \<le> - threshold_64" and "- 250000 \<le> z"
  shows "\<exists>c s. stumpff_C_fp ranged_fp (Fin z) = Fin c \<and> stumpff_S_fp ranged_fp (Fin z) = Fin s"
proof -
  note t = threshold_64_bounds
  have z0: "z < 0" using assms t by linarith
  have n: "fneg ranged_fp (Fin z) = Fin (- z)" by (simp add: ranged_fp_simps)
  have one: "bounded_by 1 (Fin 1)" by (rule bounded_Fin) simp
  have w: "bounded_by 500 (fsqrt ranged_fp (Fin (- z)))"
    using assms z0 by (intro bounded_sqrt) simp_all
  have c1: "bounded_by (3 ^ 500 + 1)
              (fsub ranged_fp (fcosh ranged_fp (fsqrt ranged_fp (Fin (- z)))) (Fin 1))"
    by (rule bounded_sub [OF bounded_cosh [OF w] one]) simp_all
  have "bounded_by ((3 ^ 500 + 1) / threshold_64)
          (fdiv ranged_fp (fsub ranged_fp (fcosh ranged_fp (fsqrt ranged_fp (Fin (- z)))) (Fin 1))
             (Fin (- z)))"
    using assms z0 by (intro bounded_div [OF c1, of threshold_64]) (simp_all add: threshold_64_def)
  then have C: "bounded_by ((3 ^ 500 + 1) / threshold_64) (stumpff_C_fp ranged_fp (Fin z))"
    unfolding stumpff_C_fp_def n using assms z0 t
    by (simp add: ranged_fp_simps(1,7,8) lit64_simps lit64_exact)
  have w': "bounded_by 500 (fsqrt ranged_fp (Fin (- z)))" by (rule w)
  have s1: "bounded_by (3 ^ 500 + 500)
              (fsub ranged_fp (fsinh ranged_fp (fsqrt ranged_fp (Fin (- z))))
                 (fsqrt ranged_fp (Fin (- z))))"
    by (rule bounded_sub [OF bounded_sinh [OF w] w]) simp_all
  have "threshold_64 \<le> - z" "- z \<le> 250000" using assms by linarith+
  from pow15_ranged [OF this] obtain p where
    p: "fpow15 ranged_fp (Fin (- z)) = Fin p" "threshold_64 * threshold_64 \<le> p" by blast
  have "bounded_by ((3 ^ 500 + 500) / (threshold_64 * threshold_64))
          (fdiv ranged_fp (fsub ranged_fp (fsinh ranged_fp (fsqrt ranged_fp (Fin (- z))))
                 (fsqrt ranged_fp (Fin (- z)))) (Fin p))"
    using p(2) t(1) by (intro bounded_div [OF s1, of "threshold_64 * threshold_64"])
      (simp_all add: threshold_64_def)
  then have S: "bounded_by ((3 ^ 500 + 500) / (threshold_64 * threshold_64))
                  (stumpff_S_fp ranged_fp (Fin z))"
    unfolding stumpff_S_fp_def n using assms z0 t
    by (simp add: ranged_fp_simps(1,7,8) lit64_simps lit64_exact p(1))
  from C S show ?thesis unfolding bounded_by_def by blast
qed

text \<open>
  Claim C3, amended.  In the exact arithmetic cut to the range of binary64,
  for every number \<open>z\<close>: both functions take the series when \<open>\<bar>z\<bar>\<close> is below the
  binary64 value of \<^verbatim>\<open>1e-6\<close> (which is smaller than \<open>10\<^sup>-\<^sup>6\<close>), the forms with
  \<open>cos\<close> and \<open>sin\<close> for the other positive \<open>z\<close> and the forms with \<open>cosh\<close> and
  \<open>sinh\<close> for the other negative \<open>z\<close>; and for \<open>\<bar>z\<bar> \<le> 250000\<close> both results are
  numbers, neither infinite nor NaN.
\<close>

theorem stumpff_ranged:
  "threshold_64 < 1 / 1000000 \<and>
   stumpff_C_fp ranged_fp (Fin z) =
     (if \<bar>z\<bar> < threshold_64 then
        fsub ranged_fp
          (fadd ranged_fp
             (fsub ranged_fp (fdiv ranged_fp (Fin 1) (Fin 2)) (fdiv ranged_fp (Fin z) (Fin 24)))
             (fdiv ranged_fp (fmul ranged_fp (Fin z) (Fin z)) (Fin 720)))
          (fdiv ranged_fp (fmul ranged_fp (fmul ranged_fp (Fin z) (Fin z)) (Fin z)) (Fin 40320))
      else if 0 < z then
        fdiv ranged_fp (fsub ranged_fp (Fin 1) (fcos ranged_fp (fsqrt ranged_fp (Fin z)))) (Fin z)
      else
        fdiv ranged_fp (fsub ranged_fp (fcosh ranged_fp (fsqrt ranged_fp (Fin (- z)))) (Fin 1))
          (Fin (- z))) \<and>
   stumpff_S_fp ranged_fp (Fin z) =
     (if \<bar>z\<bar> < threshold_64 then
        fsub ranged_fp
          (fadd ranged_fp
             (fsub ranged_fp (fdiv ranged_fp (Fin 1) (Fin 6)) (fdiv ranged_fp (Fin z) (Fin 120)))
             (fdiv ranged_fp (fmul ranged_fp (Fin z) (Fin z)) (Fin 5040)))
          (fdiv ranged_fp (fmul ranged_fp (fmul ranged_fp (Fin z) (Fin z)) (Fin z)) (Fin 362880))
      else if 0 < z then
        fdiv ranged_fp (fsub ranged_fp (fsqrt ranged_fp (Fin z))
                          (fsin ranged_fp (fsqrt ranged_fp (Fin z))))
          (fpow15 ranged_fp (Fin z))
      else
        fdiv ranged_fp (fsub ranged_fp (fsinh ranged_fp (fsqrt ranged_fp (Fin (- z))))
                          (fsqrt ranged_fp (Fin (- z))))
          (fpow15 ranged_fp (Fin (- z)))) \<and>
   (\<bar>z\<bar> \<le> 250000 \<longrightarrow>
      (\<exists>c s. stumpff_C_fp ranged_fp (Fin z) = Fin c \<and> stumpff_S_fp ranged_fp (Fin z) = Fin s))"
proof (intro conjI impI)
  show "threshold_64 < 1 / 1000000" by (rule threshold_64_bounds)
  have n: "fneg ranged_fp (Fin z) = Fin (- z)" by (simp add: ranged_fp_simps)
  show "stumpff_C_fp ranged_fp (Fin z) =
     (if \<bar>z\<bar> < threshold_64 then
        fsub ranged_fp
          (fadd ranged_fp
             (fsub ranged_fp (fdiv ranged_fp (Fin 1) (Fin 2)) (fdiv ranged_fp (Fin z) (Fin 24)))
             (fdiv ranged_fp (fmul ranged_fp (Fin z) (Fin z)) (Fin 720)))
          (fdiv ranged_fp (fmul ranged_fp (fmul ranged_fp (Fin z) (Fin z)) (Fin z)) (Fin 40320))
      else if 0 < z then
        fdiv ranged_fp (fsub ranged_fp (Fin 1) (fcos ranged_fp (fsqrt ranged_fp (Fin z)))) (Fin z)
      else
        fdiv ranged_fp (fsub ranged_fp (fcosh ranged_fp (fsqrt ranged_fp (Fin (- z)))) (Fin 1))
          (Fin (- z)))"
    unfolding stumpff_C_fp_def n
    by (simp add: ranged_fp_simps(1,7,8) lit64_simps lit64_exact)
  show "stumpff_S_fp ranged_fp (Fin z) =
     (if \<bar>z\<bar> < threshold_64 then
        fsub ranged_fp
          (fadd ranged_fp
             (fsub ranged_fp (fdiv ranged_fp (Fin 1) (Fin 6)) (fdiv ranged_fp (Fin z) (Fin 120)))
             (fdiv ranged_fp (fmul ranged_fp (Fin z) (Fin z)) (Fin 5040)))
          (fdiv ranged_fp (fmul ranged_fp (fmul ranged_fp (Fin z) (Fin z)) (Fin z)) (Fin 362880))
      else if 0 < z then
        fdiv ranged_fp (fsub ranged_fp (fsqrt ranged_fp (Fin z))
                          (fsin ranged_fp (fsqrt ranged_fp (Fin z))))
          (fpow15 ranged_fp (Fin z))
      else
        fdiv ranged_fp (fsub ranged_fp (fsinh ranged_fp (fsqrt ranged_fp (Fin (- z))))
                          (fsqrt ranged_fp (Fin (- z))))
          (fpow15 ranged_fp (Fin (- z))))"
    unfolding stumpff_S_fp_def n
    by (simp add: ranged_fp_simps(1,7,8) lit64_simps lit64_exact)
next
  assume b: "\<bar>z\<bar> \<le> 250000"
  consider "\<bar>z\<bar> < threshold_64" | "threshold_64 \<le> z" | "z \<le> - threshold_64"
    by linarith
  then show "\<exists>c s. stumpff_C_fp ranged_fp (Fin z) = Fin c \<and> stumpff_S_fp ranged_fp (Fin z) = Fin s"
  proof cases
    case 1
    then show ?thesis by (rule stumpff_series_finite)
  next
    case 2
    with b show ?thesis by (intro stumpff_elliptic_finite) linarith+
  next
    case 3
    with b show ?thesis by (intro stumpff_hyperbolic_finite) linarith+
  qed
qed

theorem stumpff_ranged_witness:
  "stumpff_C_fp ranged_fp (Fin 0) = Fin (1 / 2) \<and>
   stumpff_S_fp ranged_fp (Fin 0) = Fin (1 / 6) \<and>
   (\<exists>c s. stumpff_C_fp ranged_fp (Fin 4) = Fin c \<and> stumpff_S_fp ranged_fp (Fin 4) = Fin s) \<and>
   (\<exists>c s. stumpff_C_fp ranged_fp (Fin (- 250000)) = Fin c \<and>
          stumpff_S_fp ranged_fp (Fin (- 250000)) = Fin s)"
proof -
  have t: "\<bar>0 :: real\<bar> < threshold_64" by (simp add: threshold_64_def)
  have "stumpff_C_fp ranged_fp (Fin 0) = Fin (1 / 2) \<and> stumpff_S_fp ranged_fp (Fin 0) = Fin (1 / 6)"
    using stumpff_ranged [of 0] t by (simp add: ranged_fp_simps minus_dbl_def)
  moreover have "\<exists>c s. stumpff_C_fp ranged_fp (Fin 4) = Fin c \<and> stumpff_S_fp ranged_fp (Fin 4) = Fin s"
    using stumpff_ranged [of 4, THEN conjunct2, THEN conjunct2, THEN conjunct2] by simp
  moreover have "\<exists>c s. stumpff_C_fp ranged_fp (Fin (- 250000)) = Fin c \<and>
          stumpff_S_fp ranged_fp (Fin (- 250000)) = Fin s"
    using stumpff_ranged [of "- 250000", THEN conjunct2, THEN conjunct2, THEN conjunct2]
    by simp
  ultimately show ?thesis by blast
qed

end
